theory Spec2Isabelle
  imports Complex_Main
begin

section \<open>Python strings\<close>

text \<open>
  A Python \<open>str\<close> is modelled as a \<open>string\<close>: one \<open>char\<close> per code point, so that
  \<open>length\<close> is Python's \<open>len\<close>. A \<open>char\<close> has eight bits, so the texts of the model are
  the texts over the code points below 256. The built-in string methods the two programs
  call are written out below on that range.
\<close>

definition ascii_lowercase :: string where
  "ascii_lowercase = ''abcdefghijklmnopqrstuvwxyz''"

definition ascii_uppercase :: string where
  "ascii_uppercase = ''ABCDEFGHIJKLMNOPQRSTUVWXYZ''"

text \<open>
  The cased letters from U+00C0 to U+00FE: the small letters U+00E0 to U+00FE without the
  division sign U+00F7, and their capitals U+00C0 to U+00DE without the multiplication
  sign U+00D7.
\<close>

definition latin1_lowercase :: string where
  "latin1_lowercase = [
      CHR 0xE0, CHR 0xE1, CHR 0xE2, CHR 0xE3, CHR 0xE4, CHR 0xE5, CHR 0xE6, CHR 0xE7,
      CHR 0xE8, CHR 0xE9, CHR 0xEA, CHR 0xEB, CHR 0xEC, CHR 0xED, CHR 0xEE, CHR 0xEF,
      CHR 0xF0, CHR 0xF1, CHR 0xF2, CHR 0xF3, CHR 0xF4, CHR 0xF5, CHR 0xF6, CHR 0xF8,
      CHR 0xF9, CHR 0xFA, CHR 0xFB, CHR 0xFC, CHR 0xFD, CHR 0xFE]"

definition latin1_uppercase :: string where
  "latin1_uppercase = [
      CHR 0xC0, CHR 0xC1, CHR 0xC2, CHR 0xC3, CHR 0xC4, CHR 0xC5, CHR 0xC6, CHR 0xC7,
      CHR 0xC8, CHR 0xC9, CHR 0xCA, CHR 0xCB, CHR 0xCC, CHR 0xCD, CHR 0xCE, CHR 0xCF,
      CHR 0xD0, CHR 0xD1, CHR 0xD2, CHR 0xD3, CHR 0xD4, CHR 0xD5, CHR 0xD6, CHR 0xD8,
      CHR 0xD9, CHR 0xDA, CHR 0xDB, CHR 0xDC, CHR 0xDD, CHR 0xDE]"

text \<open>\<open>translate from to c\<close> maps a character of \<open>from\<close> to the one at its place in \<open>to\<close>.\<close>

definition translate :: "string \<Rightarrow> string \<Rightarrow> char \<Rightarrow> char" where
  "translate from to c = (case map_of (zip from to) c of Some c' \<Rightarrow> c' | None \<Rightarrow> c)"

text \<open>
  \<open>s.upper()\<close>: the sharp s U+00DF becomes the two letters \<open>SS\<close>. The capitals of the micro
  sign U+00B5 and of U+00FF lie beyond code point 255 (U+039C and U+0178); \<open>upper\<close> leaves
  these two characters as they are.
\<close>

definition upper :: "string \<Rightarrow> string" where
  "upper s =
     concat (map (\<lambda>c. if c = CHR 0xDF then ''SS''
                       else [translate (ascii_lowercase @ latin1_lowercase)
                               (ascii_uppercase @ latin1_uppercase) c]) s)"

text \<open>\<open>s.lower()\<close>.\<close>

definition lower :: "string \<Rightarrow> string" where
  "lower s = map (translate (ascii_uppercase @ latin1_uppercase)
                    (ascii_lowercase @ latin1_lowercase)) s"

fun starts_with :: "'a list \<Rightarrow> 'a list \<Rightarrow> bool" where
  "starts_with [] s = True"
| "starts_with (p # ps) [] = False"
| "starts_with (p # ps) (c # cs) = (p = c \<and> starts_with ps cs)"

text \<open>\<open>contains sub s\<close> is Python's \<open>sub in s\<close>.\<close>

fun contains :: "'a list \<Rightarrow> 'a list \<Rightarrow> bool" where
  "contains sub [] = (sub = [])"
| "contains sub (c # cs) = (starts_with sub (c # cs) \<or> contains sub cs)"

text \<open>
  \<open>replace old new s\<close> is \<open>s.replace(old, new)\<close>: the occurrences of \<open>old\<close> are replaced
  from the left, without overlap. Every \<open>old\<close> in the source is a non-empty literal; an
  empty \<open>old\<close> leaves the text as it is here.
\<close>

function replace :: "string \<Rightarrow> string \<Rightarrow> string \<Rightarrow> string" where
  "replace old new [] = []"
| "replace old new (c # cs) =
     (if old \<noteq> [] \<and> starts_with old (c # cs)
      then new @ replace old new (drop (length old) (c # cs))
      else c # replace old new cs)"
  by pat_completeness auto
termination
  by (relation "measure (\<lambda>(old, new, s). length s)") (auto simp: neq_Nil_conv)

text \<open>
  The characters \<open>str.isspace\<close> holds for: tab to carriage return, the separators U+001C
  to U+001F, the space, the next-line control U+0085 and the no-break space U+00A0.
\<close>

definition is_space :: "char \<Rightarrow> bool" where
  "is_space c = (c \<in> set [CHR '' '', CHR 0x09, CHR ''\<newline>'', CHR 0x0B, CHR 0x0C, CHR 0x0D,
                            CHR 0x1C, CHR 0x1D, CHR 0x1E, CHR 0x1F, CHR 0x85, CHR 0xA0])"

text \<open>\<open>s.strip()\<close>.\<close>

definition strip :: "string \<Rightarrow> string" where
  "strip s = rev (dropWhile is_space (rev (dropWhile is_space s)))"

text \<open>\<open>join sep xs\<close> is \<open>sep.join(xs)\<close> on a list of strings.\<close>

fun join :: "string \<Rightarrow> string list \<Rightarrow> string" where
  "join sep [] = []"
| "join sep [x] = x"
| "join sep (x # y # ys) = x @ sep @ join sep (y # ys)"

text \<open>\<open>str(n)\<close> of a non-negative integer: its decimal digits.\<close>

definition digit :: "nat \<Rightarrow> char" where
  "digit n = ''0123456789'' ! n"

fun str_nat :: "nat \<Rightarrow> string" where
  "str_nat n = (if n < 10 then [digit n] else str_nat (n div 10) @ [digit (n mod 10)])"

declare str_nat.simps [simp del]

text \<open>
  \<open>find c s\<close> and \<open>rfind c s\<close> are \<open>s.find(c)\<close> and \<open>s.rfind(c)\<close> for a one-character
  \<open>c\<close>: the index of the first (last) occurrence, or \<open>-1\<close>.
\<close>

fun find_from :: "nat \<Rightarrow> char \<Rightarrow> string \<Rightarrow> int" where
  "find_from i c [] = -1"
| "find_from i c (x # xs) = (if x = c then int i else find_from (Suc i) c xs)"

definition find_chr :: "char \<Rightarrow> string \<Rightarrow> int" where
  "find_chr c s = find_from 0 c s"

definition rfind_chr :: "char \<Rightarrow> string \<Rightarrow> int" where
  "rfind_chr c s =
     (let r = find_from 0 c (rev s) in if r < 0 then -1 else int (length s) - 1 - r)"

text \<open>
  \<open>slice s i j\<close> is \<open>s[i:j]\<close>: a negative bound counts from the end, and both bounds are
  clamped to the text.
\<close>

definition clamp_index :: "nat \<Rightarrow> int \<Rightarrow> nat" where
  "clamp_index n i = (if i < 0 then nat (max 0 (int n + i)) else min n (nat i))"

definition slice :: "'a list \<Rightarrow> int \<Rightarrow> int \<Rightarrow> 'a list" where
  "slice s i j =
     (let a = clamp_index (length s) i; b = clamp_index (length s) j
      in take (b - a) (drop a s))"

text \<open>\<open>slice_from s i\<close> is \<open>s[i:]\<close>.\<close>

definition slice_from :: "'a list \<Rightarrow> int \<Rightarrow> 'a list" where
  "slice_from s i = drop (clamp_index (length s) i) s"

section \<open>Context Aggregator: \<open>prune_context\<close> (MultiAgentSystem.py)\<close>

definition truncation_marker :: string where
  "truncation_marker = ''...(truncated)\<newline>''"

text \<open>
  \<^verbatim>\<open>
  def prune_context(ctx, limit=4000):
      if len(ctx) > limit: return "...(truncated)\n" + ctx[-(limit):]
      return ctx
  \<close>
\<close>

definition prune_context_limit :: "string \<Rightarrow> int \<Rightarrow> string" where
  "prune_context_limit ctx limit =
     (if int (length ctx) > limit then truncation_marker @ slice_from ctx (- limit) else ctx)"

definition prune_context :: "string \<Rightarrow> string" where
  "prune_context ctx = prune_context_limit ctx 4000"

section \<open>Data model shared by the two programs\<close>

text \<open>
  An event is the dictionary \<open>msg\<close> serialises: \<^verbatim>\<open>{"type": t, "content": c, "target": tgt}\<close>.
  The generator yields one JSON line per event; the model keeps the events themselves, in
  the order they are yielded.
\<close>

record event =
  ev_type :: string
  ev_content :: string
  ev_target :: "string option"

definition msg :: "string \<Rightarrow> string \<Rightarrow> string option \<Rightarrow> event" where
  "msg t c tgt = \<lparr>ev_type = t, ev_content = c, ev_target = tgt\<rparr>"

record turn =
  role :: string
  content :: string

text \<open>A session as \<open>create_session\<close> builds it; \<open>sid\<close> is the key \<open>"id"\<close>.\<close>

record session =
  sid :: string
  title :: string
  history :: "turn list"
  created :: real

type_synonym sessions = "string \<rightharpoonup> session"

definition get_session :: "sessions \<Rightarrow> string \<Rightarrow> session option" where
  "get_session sessions uid = sessions uid"

text \<open>
  The completion service behind \<open>ENGINE.model\<close> is not part of the repository. It is a
  parameter of the model: an oracle that is asked with the number of gateway calls the run
  has made so far and the full prompt. The sampling parameters (temperature, token budget,
  stop sequences) are only forwarded to the service, so they are not arguments of the
  oracle; since the oracle is indexed by the call number, its answer may depend on them in
  any way. \<open>None\<close> is the case \<open>ENGINE.model is None\<close> (no model loaded) at the time of
  the call. With a model loaded, a call without streaming returns the text of the
  completion; exceptions of the service itself on such a call are outside the model. A
  streaming completion is the list of the text increments it produces and, when iterating
  it ends in an exception, the text of that exception.
\<close>

record gateway =
  create_completion :: "nat \<Rightarrow> string \<Rightarrow> string option"
  create_stream :: "nat \<Rightarrow> string \<Rightarrow> (string list \<times> string option) option"

text \<open>The exceptions a run can end in.\<close>

datatype error = TypeError | AttributeError | JSONDecodeError | StreamError string

record run_state =
  events :: "event list"

definition emit :: "event \<Rightarrow> 'a run_state_scheme \<Rightarrow> 'a run_state_scheme" where
  "emit e s = s\<lparr>events := events s @ [e]\<rparr>"

text \<open>What a run leaves behind: the events yielded, the session store, and the exception
  that ended the generator, if one did.\<close>

record run_result =
  emitted :: "event list"
  store :: sessions
  raised :: "error option"

section \<open>Recursive Decomposition Engine (MultiAgentSystem.py)\<close>

text \<open>
  A value \<open>json.loads\<close> can put into the sub-task array: a \<open>str\<close>, or any other JSON value,
  kept as the text \<open>str()\<close> and an f-string print for it.
\<close>

datatype pyval = Str string | NonStr string

fun fmt :: "pyval \<Rightarrow> string" where
  "fmt (Str s) = s"
| "fmt (NonStr s) = s"

datatype node_type = MAIN | SUB | RESUME

text \<open>A stack entry \<^verbatim>\<open>{"depth": d, "task": t, "type": ty}\<close>.\<close>

record task_node =
  n_depth :: nat
  n_task :: pyval
  n_type :: node_type

datatype site = P_router | P_what | P_how | P_is | P_split | Prompt_exec

text \<open>
  The state of one run: the events yielded so far, the gateway calls made so far (call
  site and full prompt), and \<open>global_context\<close>.
\<close>

record dstate = run_state +
  calls :: "(site \<times> string) list"
  global_context :: string

text \<open>\<open>CoreEngine.inference\<close> of MultiAgentSystem.py.\<close>

definition inference :: "gateway \<Rightarrow> site \<Rightarrow> string \<Rightarrow> dstate \<Rightarrow> string option \<times> dstate" where
  "inference g st prompt s =
     (let full_prompt = ''### Instruction:\<newline>'' @ prompt @ ''\<newline>\<newline>### Response:\<newline>''
      in (create_completion g (length (calls s)) full_prompt,
          s\<lparr>calls := calls s @ [(st, full_prompt)]\<rparr>))"

definition clean_resp :: "string \<Rightarrow> string" where
  "clean_resp text =
     (if text = [] then []
      else let t1 = replace [CHR 0x22] [] (replace [CHR 0x27] [] (replace [CHR 0x60] [] text));
               bad = [''SYSTEM:'', ''GLOBAL CONTEXT:'', ''Instruction:'', ''Context:'', ''Response:'']
           in strip (foldl (\<lambda>t b. replace b [] t) t1 bad))"

definition MAX_DEPTH :: nat where
  "MAX_DEPTH = 3"

definition prefix_of :: "nat \<Rightarrow> string" where
  "prefix_of depth = ''['' @ concat (replicate depth ''>>'') @ ''] D'' @ str_nat depth"

text \<open>
  The WHI analysis of a MAIN or SUB node (lines 125 to 164), in the order of the source:
  the router question, then either the fixed values of the simple path or the goal
  extraction, the plan extraction and, below \<open>MAX_DEPTH\<close>, the single-step question.
\<close>

text \<open>Lines 125 to 129: the result is \<open>is_complex\<close>.\<close>

definition router :: "gateway \<Rightarrow> nat \<Rightarrow> pyval \<Rightarrow> dstate \<Rightarrow> bool \<times> dstate" where
  "router g depth task s0 =
     (let prefix = prefix_of depth;
          s1 = emit (msg ''status'' (prefix @ '' WHI Analysis...'') None) s0;
          p_router = ''Input: '' @ fmt task @
            ''\<newline>Question: Is this a complex task requiring a plan? Answer YES or NO.'';
          (res_router, s2) = inference g P_router p_router s1;
          is_complex = (case res_router of Some t \<Rightarrow> contains ''YES'' (upper t) | None \<Rightarrow> True)
      in (is_complex, s2))"

text \<open>Lines 132 to 139: the simple path.\<close>

definition simple_path :: "nat \<Rightarrow> dstate \<Rightarrow> (string \<times> string \<times> string) \<times> dstate" where
  "simple_path depth s0 =
     (let prefix = prefix_of depth;
          val_w = ''Chat with user'';
          s1 = emit (msg ''card'' (''W: '' @ val_w) (Some (prefix @ '' WHI''))) s0;
          val_h = ''Reply naturally'';
          s2 = emit (msg ''card'' (''H: '' @ val_h) (Some (prefix @ '' WHI''))) s1;
          val_i = ''YES'';
          s3 = emit (msg ''card'' (''I: '' @ val_i) (Some (prefix @ '' WHI''))) s2
      in ((val_w, val_h, val_i), s3))"

text \<open>Lines 141 to 148: the result is \<open>val_w\<close>.\<close>

definition extract_goal :: "gateway \<Rightarrow> nat \<Rightarrow> pyval \<Rightarrow> dstate \<Rightarrow> string \<times> dstate" where
  "extract_goal g depth task s0 =
     (let prefix = prefix_of depth;
          p_what = ''Input: '' @ fmt task @ ''\<newline>Context: '' @
            prune_context (global_context s0) @ ''\<newline>Task: Identify the specific goal.'';
          (res_w, s1) = inference g P_what p_what s0;
          val_w0 = (case res_w of Some t \<Rightarrow> clean_resp t | None \<Rightarrow> []);
          val_w = (if val_w0 = [] \<or> contains ''sorry'' (lower val_w0)
                      \<or> contains ''understand'' (lower val_w0)
                   then ''Execute task'' else val_w0)
      in (val_w, emit (msg ''card'' (''W: '' @ val_w) (Some (prefix @ '' WHI''))) s1))"

text \<open>Lines 150 to 156: the result is \<open>val_h\<close>.\<close>

definition extract_plan :: "gateway \<Rightarrow> nat \<Rightarrow> pyval \<Rightarrow> string \<Rightarrow> dstate \<Rightarrow> string \<times> dstate" where
  "extract_plan g depth task val_w s0 =
     (let prefix = prefix_of depth;
          p_how = ''Input: '' @ fmt task @ ''\<newline>Goal: '' @ val_w @
            ''\<newline>Task: List brief steps to achieve this.'';
          (res_h, s1) = inference g P_how p_how s0;
          val_h0 = (case res_h of Some t \<Rightarrow> clean_resp t | None \<Rightarrow> []);
          val_h = (if val_h0 = [] then ''Execute immediately'' else val_h0)
      in (val_h, emit (msg ''card'' (''H: '' @ val_h) (Some (prefix @ '' WHI''))) s1))"

text \<open>Lines 158 to 164: the result is \<open>val_i\<close>.\<close>

definition single_step :: "gateway \<Rightarrow> nat \<Rightarrow> string \<Rightarrow> dstate \<Rightarrow> string \<times> dstate" where
  "single_step g depth val_h s0 =
     (let prefix = prefix_of depth;
          (val_i, s1) =
            (if depth < MAX_DEPTH then
               let p_is = ''Steps: '' @ val_h @
                     ''\<newline>Question: Is this a single step task? YES or NO.'';
                   (res_i, s') = inference g P_is p_is s0
               in (case res_i of
                     Some t \<Rightarrow> if contains ''NO'' (upper t) then (''NO'', s') else (''YES'', s')
                   | None \<Rightarrow> (''YES'', s'))
             else (''YES'', s0))
      in (val_i, emit (msg ''card'' (''I: '' @ val_i) (Some (prefix @ '' WHI''))) s1))"

text \<open>The whole analysis returns \<open>val_w\<close>, \<open>val_h\<close> and \<open>val_i\<close>.\<close>

definition whi_analysis ::
  "gateway \<Rightarrow> nat \<Rightarrow> pyval \<Rightarrow> dstate \<Rightarrow> (string \<times> string \<times> string) \<times> dstate" where
  "whi_analysis g depth task s0 =
     (let (is_complex, s1) = router g depth task s0
      in if \<not> is_complex then simple_path depth s1
         else
           let (val_w, s2) = extract_goal g depth task s1;
               (val_h, s3) = extract_plan g depth task val_w s2;
               (val_i, s4) = single_step g depth val_h s3
           in ((val_w, val_h, val_i), s4))"

text \<open>
  \<open>re.search(r'\[.*\]', txt, re.DOTALL)\<close>: with \<open>DOTALL\<close> the greedy \<open>.*\<close> runs over
  newlines, so the match, when there is one, goes from the first \<open>[\<close> to the last \<open>]\<close>;
  there is one exactly when a \<open>]\<close> follows the first \<open>[\<close>.
\<close>

definition search_brackets :: "string \<Rightarrow> string option" where
  "search_brackets txt =
     (case dropWhile (\<lambda>c. c \<noteq> CHR ''['') txt of
        [] \<Rightarrow> None
      | b # body \<Rightarrow>
          if CHR '']'' \<in> set body
          then Some (b # rev (dropWhile (\<lambda>c. c \<noteq> CHR '']'') (rev body)))
          else None)"

text \<open>\<open>"\n".join(sub_tasks)\<close>: a \<open>TypeError\<close> when an element is not a \<open>str\<close>.\<close>

fun all_strs :: "pyval list \<Rightarrow> string list option" where
  "all_strs [] = Some []"
| "all_strs (Str s # vs) = (case all_strs vs of Some ss \<Rightarrow> Some (s # ss) | None \<Rightarrow> None)"
| "all_strs (NonStr s # vs) = None"

text \<open>
  The body of the \<open>try\<close> (lines 173 to 181). \<open>json.loads\<close> is library code, taken as the
  parameter \<open>loads\<close>: \<open>None\<close> when it raises, else the parsed array. The result is the
  nodes appended to \<open>task_stack\<close> (in the order of the \<open>append\<close> calls) and how the body
  ends: \<open>Inl\<close> an exception, \<open>Inr (Some c)\<close> when it reaches the \<open>yield\<close> of the split plan
  card with content \<open>c\<close> and then \<open>continue\<close>, \<open>Inr None\<close> when there is no match and
  control falls out of the \<open>try\<close>.
\<close>

definition split_try ::
  "(string \<Rightarrow> pyval list option) \<Rightarrow> string option \<Rightarrow> nat \<Rightarrow> pyval
     \<Rightarrow> task_node list \<times> (error + string option)" where
  "split_try loads res_split depth task =
     (case res_split of
        None \<Rightarrow> ([], Inl TypeError)
      | Some txt \<Rightarrow>
          (case search_brackets txt of
             None \<Rightarrow> ([], Inr None)
           | Some m \<Rightarrow>
               (case loads m of
                  None \<Rightarrow> ([], Inl JSONDecodeError)
                | Some sub_tasks \<Rightarrow>
                    let pushed = \<lparr>n_depth = depth, n_task = task, n_type = RESUME\<rparr> #
                          map (\<lambda>st. \<lparr>n_depth = depth + 1, n_task = st, n_type = SUB\<rparr>) (rev sub_tasks)
                    in (case all_strs sub_tasks of
                          None \<Rightarrow> (pushed, Inl TypeError)
                        | Some ss \<Rightarrow> (pushed, Inr (Some (join ''\<newline>'' ss)))))))"

text \<open>
  Leaf execution (lines 185 to 208). \<open>ENGINE.model.create_completion\<close> is called on the
  model handle directly, outside the \<open>try\<close>: with no model loaded this is an
  \<open>AttributeError\<close>. The \<open>try\<close> covers the iteration of the stream only.
\<close>

definition execute_leaf ::
  "gateway \<Rightarrow> nat \<Rightarrow> pyval \<Rightarrow> string \<Rightarrow> string \<Rightarrow> dstate \<Rightarrow> dstate \<times> error option" where
  "execute_leaf g depth task val_w val_h s0 =
     (let prefix = prefix_of depth;
          s1 = emit (msg ''status'' (prefix @ '' Status: CLEAR. Executing...'') None) s0;
          prompt_exec = ''Context: '' @ prune_context (global_context s1) @
            ''\<newline>Request: '' @ fmt task @ ''\<newline>Goal: '' @ val_w @ ''\<newline>Plan: '' @ val_h @
            ''\<newline>\<newline>Task: Write the response now.'';
          full_prompt = ''### Instruction:\<newline>'' @ prompt_exec @ ''\<newline>\<newline>### Response:\<newline>'';
          stream = create_stream g (length (calls s1)) full_prompt;
          s2 = s1\<lparr>calls := calls s1 @ [(Prompt_exec, full_prompt)]\<rparr>
      in case stream of
           None \<Rightarrow> (s2, Some AttributeError)
         | Some (chunks, exc) \<Rightarrow>
             let content_chunk = concat chunks;
                 s3 = foldl (\<lambda>s txt. emit (msg ''token'' txt None) s) s2 chunks;
                 s4 = (case exc of
                         None \<Rightarrow> s3
                       | Some e \<Rightarrow> emit (msg ''token'' (''\<newline>[Error: '' @ e @ '']'') None) s3)
             in (s4\<lparr>global_context := global_context s4 @ ''\<newline>User: '' @ fmt task @
                       ''\<newline>AI: '' @ content_chunk @ ''\<newline>''\<rparr>, None))"

text \<open>
  One iteration of the \<open>while\<close> loop, for the node \<open>item\<close> popped from the stack: the new
  state and either the exception that leaves the generator or the nodes this iteration
  appended to \<open>task_stack\<close>.
\<close>

definition process_node ::
  "gateway \<Rightarrow> (string \<Rightarrow> pyval list option) \<Rightarrow> task_node \<Rightarrow> dstate
     \<Rightarrow> dstate \<times> (error + task_node list)" where
  "process_node g loads item s0 =
     (let depth = n_depth item; task = n_task item; prefix = prefix_of depth
      in if n_type item = RESUME then
           let s1 = emit (msg ''status'' (prefix @ '' Context Aggregation...'') None) s0;
               s2 = emit (msg ''card'' (''Sub-tasks completed for: '' @ fmt task)
                            (Some (prefix @ '' Context''))) s1
           in (s2, Inr [])
         else
           let ((val_w, val_h, val_i), s1) = whi_analysis g depth task s0
           in if val_i = ''NO'' then
                let s2 = emit (msg ''status'' (prefix @ '' Status: COMPLEX. Splitting...'') None) s1;
                    p_split = ''Goal: '' @ val_w @ ''\<newline>Steps: '' @ val_h @
                      ''\<newline>Task: Return a JSON list of sub-tasks. Example: ['' @ [CHR 0x22] @
                      ''Step1'' @ [CHR 0x22] @ '', '' @ [CHR 0x22] @ ''Step2'' @ [CHR 0x22] @ '']'';
                    (res_split, s3) = inference g P_split p_split s2
                in (case split_try loads res_split depth task of
                      (pushed, Inr (Some c)) \<Rightarrow>
                        (emit (msg ''card'' c (Some (prefix @ '' Split Plan''))) s3, Inr pushed)
                    | (pushed, Inr None) \<Rightarrow> (s3, Inr pushed)
                    | (pushed, Inl e) \<Rightarrow>
                        (case execute_leaf g depth task val_w val_h s3 of
                           (s4, Some e') \<Rightarrow> (s4, Inl e')
                         | (s4, None) \<Rightarrow> (s4, Inr pushed)))
              else
                (case execute_leaf g depth task val_w val_h s1 of
                   (s2, Some e') \<Rightarrow> (s2, Inl e')
                 | (s2, None) \<Rightarrow> (s2, Inr [])))"

text \<open>
  The \<open>while task_stack:\<close> loop. \<open>task_stack\<close> is the Python list: \<open>pop()\<close> takes its
  last element and \<open>append\<close> adds at the end. The result is the state at the end of the
  loop, or at the exception that left it.
\<close>

function run_stack ::
  "gateway \<Rightarrow> (string \<Rightarrow> pyval list option) \<Rightarrow> task_node list \<Rightarrow> dstate
     \<Rightarrow> dstate \<times> error option" where
  "run_stack g loads task_stack s =
     (if task_stack = [] then (s, None)
      else
        (case process_node g loads (last task_stack) s of
           (s', Inl e) \<Rightarrow> (s', Some e)
         | (s', Inr pushed) \<Rightarrow> run_stack g loads (butlast task_stack @ pushed) s'))"
  by pat_completeness auto

lemma whi_analysis_NO:
  assumes "whi_analysis g depth task s = ((val_w, val_h, val_i), s')" and "val_i = ''NO''"
  shows "depth < MAX_DEPTH"
  using assms
  by (auto simp: whi_analysis_def simple_path_def single_step_def Let_def
           split: prod.splits if_splits option.splits)

lemma split_try_pushed:
  assumes "split_try loads res_split depth task = (pushed, r)"
  shows "pushed = [] \<or>
         (\<exists>sub_tasks. pushed = \<lparr>n_depth = depth, n_task = task, n_type = RESUME\<rparr> #
            map (\<lambda>st. \<lparr>n_depth = depth + 1, n_task = st, n_type = SUB\<rparr>) (rev sub_tasks))"
  using assms
  by (auto simp: split_try_def Let_def split: option.splits)

lemma split_try_no_match:
  assumes "split_try loads res_split depth task = (pushed, Inr None)"
  shows "pushed = []"
  using assms
  by (auto simp: split_try_def Let_def split: option.splits)

text \<open>
  The paths through one iteration of the loop: a RESUME node; a split that reaches the
  split plan card; a split reply without a bracketed span; a split whose \<open>try\<close> body
  raises, after which the node is executed as a leaf; and a node executed as a leaf
  directly.
\<close>

lemma process_node_cases [consumes 1, case_names Resume Split NoMatch Caught Leaf]:
  assumes "process_node g loads item s = (s', r)"
  obtains
    (Resume) "n_type item = RESUME"
      "s' = emit (msg ''card'' (''Sub-tasks completed for: '' @ fmt (n_task item))
                    (Some (prefix_of (n_depth item) @ '' Context'')))
              (emit (msg ''status'' (prefix_of (n_depth item) @ '' Context Aggregation...'') None) s)"
      "r = Inr []"
  | (Split) val_w val_h s1 p res_split s3 pushed c where
      "n_type item \<noteq> RESUME"
      "whi_analysis g (n_depth item) (n_task item) s = ((val_w, val_h, ''NO''), s1)"
      "inference g P_split p
         (emit (msg ''status'' (prefix_of (n_depth item) @ '' Status: COMPLEX. Splitting...'') None) s1)
         = (res_split, s3)"
      "split_try loads res_split (n_depth item) (n_task item) = (pushed, Inr (Some c))"
      "s' = emit (msg ''card'' c (Some (prefix_of (n_depth item) @ '' Split Plan''))) s3"
      "r = Inr pushed"
  | (NoMatch) val_w val_h s1 p res_split where
      "n_type item \<noteq> RESUME"
      "whi_analysis g (n_depth item) (n_task item) s = ((val_w, val_h, ''NO''), s1)"
      "inference g P_split p
         (emit (msg ''status'' (prefix_of (n_depth item) @ '' Status: COMPLEX. Splitting...'') None) s1)
         = (res_split, s')"
      "split_try loads res_split (n_depth item) (n_task item) = ([], Inr None)"
      "r = Inr []"
  | (Caught) val_w val_h s1 p res_split s3 pushed e x where
      "n_type item \<noteq> RESUME"
      "whi_analysis g (n_depth item) (n_task item) s = ((val_w, val_h, ''NO''), s1)"
      "inference g P_split p
         (emit (msg ''status'' (prefix_of (n_depth item) @ '' Status: COMPLEX. Splitting...'') None) s1)
         = (res_split, s3)"
      "split_try loads res_split (n_depth item) (n_task item) = (pushed, Inl e)"
      "execute_leaf g (n_depth item) (n_task item) val_w val_h s3 = (s', x)"
      "r = (case x of Some e' \<Rightarrow> Inl e' | None \<Rightarrow> Inr pushed)"
  | (Leaf) val_w val_h val_i s1 x where
      "n_type item \<noteq> RESUME"
      "whi_analysis g (n_depth item) (n_task item) s = ((val_w, val_h, val_i), s1)"
      "val_i \<noteq> ''NO''"
      "execute_leaf g (n_depth item) (n_task item) val_w val_h s1 = (s', x)"
      "r = (case x of Some e' \<Rightarrow> Inl e' | None \<Rightarrow> Inr [])"
proof (cases "n_type item = RESUME")
  case True
  with assms Resume show ?thesis by (simp add: process_node_def Let_def)
next
  case False
  obtain val_w val_h val_i s1 where
    w: "whi_analysis g (n_depth item) (n_task item) s = ((val_w, val_h, val_i), s1)"
    by (metis prod.exhaust)
  show ?thesis
  proof (cases "val_i = ''NO''")
    case no: True
    define p where "p = ''Goal: '' @ val_w @ ''\<newline>Steps: '' @ val_h @
            ''\<newline>Task: Return a JSON list of sub-tasks. Example: ['' @ [CHR 0x22] @
            ''Step1'' @ [CHR 0x22] @ '', '' @ [CHR 0x22] @ ''Step2'' @ [CHR 0x22] @ '']''"
    obtain res_split s3 where
      i: "inference g P_split p
            (emit (msg ''status'' (prefix_of (n_depth item) @ '' Status: COMPLEX. Splitting...'') None) s1)
          = (res_split, s3)"
      by (metis prod.exhaust)
    obtain pushed t where t: "split_try loads res_split (n_depth item) (n_task item) = (pushed, t)"
      by (metis prod.exhaust)
    obtain s4 x where l: "execute_leaf g (n_depth item) (n_task item) val_w val_h s3 = (s4, x)"
      by (metis prod.exhaust)
    have pn: "(s', r) = (case (pushed, t) of
                 (pushed, Inr (Some c)) \<Rightarrow>
                   (emit (msg ''card'' c (Some (prefix_of (n_depth item) @ '' Split Plan''))) s3, Inr pushed)
               | (pushed, Inr None) \<Rightarrow> (s3, Inr pushed)
               | (pushed, Inl e) \<Rightarrow>
                   (case (s4, x) of (s4, Some e') \<Rightarrow> (s4, Inl e') | (s4, None) \<Rightarrow> (s4, Inr pushed)))"
      using assms False w no i [unfolded p_def] t l
      by (auto simp: process_node_def Let_def split: sum.splits option.splits)
    show ?thesis
    proof (cases t)
      case (Inl e)
      with pn have "s' = s4" "r = (case x of Some e' \<Rightarrow> Inl e' | None \<Rightarrow> Inr pushed)"
        by (simp_all split: option.splits)
      with Caught [OF False w [unfolded no] i t [unfolded Inl]] l show ?thesis by simp
    next
      case (Inr oc)
      show ?thesis
      proof (cases oc)
        case None
        with pn Inr have "s' = s3" "r = Inr pushed" by simp_all
        moreover have "pushed = []"
          using t Inr None by (auto dest: split_try_no_match)
        ultimately show ?thesis
          using NoMatch [OF False w [unfolded no]] i t Inr None by simp
      next
        case (Some c)
        with pn Inr have "s' = emit (msg ''card'' c (Some (prefix_of (n_depth item) @ '' Split Plan''))) s3"
          "r = Inr pushed" by simp_all
        with Split [OF False w [unfolded no] i] t Inr Some show ?thesis by simp
      qed
    qed
  next
    case yes: False
    obtain s2 x where l: "execute_leaf g (n_depth item) (n_task item) val_w val_h s1 = (s2, x)"
      by (metis prod.exhaust)
    have "s' = s2" "r = (case x of Some e' \<Rightarrow> Inl e' | None \<Rightarrow> Inr [])"
      using assms False w yes l
      by (simp_all add: process_node_def Let_def split: option.splits)
    with Leaf [OF False w yes] l show ?thesis by simp
  qed
qed

lemma process_node_pushed:
  assumes "process_node g loads item s = (s', Inr pushed)"
  shows "pushed = [] \<or>
         (n_type item \<noteq> RESUME \<and> n_depth item < MAX_DEPTH \<and>
          (\<exists>sub_tasks. pushed = \<lparr>n_depth = n_depth item, n_task = n_task item, n_type = RESUME\<rparr> #
             map (\<lambda>st. \<lparr>n_depth = n_depth item + 1, n_task = st, n_type = SUB\<rparr>) (rev sub_tasks)))"
  using assms
proof (cases rule: process_node_cases)
  case Resume
  then show ?thesis by simp
next
  case (Split val_w val_h s1 p res_split s3 pushed' c)
  then show ?thesis
    using whi_analysis_NO [OF Split(2)] split_try_pushed [OF Split(4)] by auto
next
  case (NoMatch val_w val_h s1 p res_split)
  then show ?thesis by simp
next
  case (Caught val_w val_h s1 p res_split s3 pushed' e x)
  then show ?thesis
    using whi_analysis_NO [OF Caught(2)] split_try_pushed [OF Caught(4)]
    by (auto split: option.splits)
next
  case (Leaf val_w val_h val_i s1 x)
  then show ?thesis by (auto split: option.splits)
qed

text \<open>
  The loop ends: a node that pushes is a MAIN or SUB node below \<open>MAX_DEPTH\<close>, and what it
  pushes is its RESUME node and SUB nodes one level deeper. So the numbers of MAIN/SUB
  nodes at depth 0, 1 and 2, followed by the length of the stack, decrease
  lexicographically with every iteration.
\<close>

definition splittable_at :: "nat \<Rightarrow> task_node list \<Rightarrow> nat" where
  "splittable_at k task_stack =
     length (filter (\<lambda>n. n_type n \<noteq> RESUME \<and> n_depth n = k) task_stack)"

lemma splittable_at_append [simp]:
  "splittable_at k (xs @ ys) = splittable_at k xs + splittable_at k ys"
  by (simp add: splittable_at_def)

lemma splittable_at_Cons [simp]:
  "splittable_at k (x # xs) =
     (if n_type x \<noteq> RESUME \<and> n_depth x = k then 1 else 0) + splittable_at k xs"
  by (simp add: splittable_at_def)

lemma splittable_at_Nil [simp]: "splittable_at k [] = 0"
  by (simp add: splittable_at_def)

lemma splittable_at_subs:
  "splittable_at k (map (\<lambda>st. \<lparr>n_depth = d, n_task = st, n_type = SUB\<rparr>) ts) =
     (if d = k then length ts else 0)"
  by (induction ts) auto

lemma splittable_at_pop:
  assumes "task_stack \<noteq> []"
  shows "splittable_at k task_stack =
           splittable_at k (butlast task_stack) + splittable_at k [last task_stack]"
proof -
  have "task_stack = butlast task_stack @ [last task_stack]" using assms by simp
  then have "splittable_at k task_stack
               = splittable_at k (butlast task_stack @ [last task_stack])" by simp
  then show ?thesis by (simp only: splittable_at_append)
qed

termination run_stack
proof (relation "measures [\<lambda>(g, loads, stk, s). splittable_at 0 stk,
                           \<lambda>(g, loads, stk, s). splittable_at 1 stk,
                           \<lambda>(g, loads, stk, s). splittable_at 2 stk,
                           \<lambda>(g, loads, stk, s). length stk]", goal_cases)
  case 1
  show ?case by simp
next
  case (2 g loads task_stack s s' r pushed)
  then have ne: "task_stack \<noteq> []"
    and step: "process_node g loads (last task_stack) s = (s', Inr pushed)"
    by simp_all
  note pop = splittable_at_pop [OF ne]
  let ?item = "last task_stack"
  from process_node_pushed [OF step] show ?case
  proof
    assume "pushed = []"
    then show ?thesis
      using ne pop [of 0] pop [of 1] pop [of 2] by auto
  next
    assume "n_type ?item \<noteq> RESUME \<and> n_depth ?item < MAX_DEPTH \<and>
      (\<exists>sub_tasks. pushed = \<lparr>n_depth = n_depth ?item, n_task = n_task ?item, n_type = RESUME\<rparr> #
         map (\<lambda>st. \<lparr>n_depth = n_depth ?item + 1, n_task = st, n_type = SUB\<rparr>) (rev sub_tasks))"
    then obtain sub_tasks where k: "n_type ?item \<noteq> RESUME" and d: "n_depth ?item < 3"
      and pu: "pushed = \<lparr>n_depth = n_depth ?item, n_task = n_task ?item, n_type = RESUME\<rparr> #
         map (\<lambda>st. \<lparr>n_depth = n_depth ?item + 1, n_task = st, n_type = SUB\<rparr>) (rev sub_tasks)"
      by (auto simp: MAX_DEPTH_def)
    from d consider "n_depth ?item = 0" | "n_depth ?item = 1" | "n_depth ?item = 2"
      by linarith
    then show ?thesis
    proof cases
      case 1
      then show ?thesis
        using k pu pop [of 0] by (simp add: splittable_at_subs)
    next
      case 2
      then show ?thesis
        using k pu pop [of 0] pop [of 1] by (simp add: splittable_at_subs)
    next
      case 3
      then show ?thesis
        using k pu pop [of 0] pop [of 1] pop [of 2] by (simp add: splittable_at_subs)
    qed
  qed
qed

declare run_stack.simps [simp del]

text \<open>
  \<open>process_pipeline\<close> of MultiAgentSystem.py (the \<open>settings\<close> argument is never read).
  An unknown session ends the generator before it yields anything.
\<close>

definition history_line :: "turn \<Rightarrow> string" where
  "history_line m = (if role m = ''user'' then ''User'' else ''AI'') @ '': '' @ content m @ ''\<newline>''"

definition process_pipeline_MultiAgent ::
  "gateway \<Rightarrow> (string \<Rightarrow> pyval list option) \<Rightarrow> sessions \<Rightarrow> string \<Rightarrow> string \<Rightarrow> run_result" where
  "process_pipeline_MultiAgent g loads sessions original_prompt session_id =
     (case get_session sessions session_id of
        None \<Rightarrow> \<lparr>emitted = [], store = sessions, raised = None\<rparr>
      | Some sess \<Rightarrow>
          let s0 = emit (msg ''status'' ''Initializing WHIS-ReAct Protocol...'' None)
                     \<lparr>events = [], calls = [], global_context = []\<rparr>;
              s1 = (if history sess \<noteq> []
                    then s0\<lparr>global_context := ''Prior Chat History:\<newline>'' @
                              concat (map history_line (slice_from (history sess) (- 6)))\<rparr>
                    else s0);
              task_stack = [\<lparr>n_depth = 1, n_task = Str original_prompt, n_type = MAIN\<rparr>]
          in (case run_stack g loads task_stack s1 of
                (s2, Some e) \<Rightarrow> \<lparr>emitted = events s2, store = sessions, raised = Some e\<rparr>
              | (s2, None) \<Rightarrow>
                  let sessions' = sessions(session_id \<mapsto>
                        sess\<lparr>history := history sess @
                               [\<lparr>role = ''user'', content = original_prompt\<rparr>]\<rparr>);
                      s3 = emit (msg ''done'' ''Ready'' None) s2
                  in \<lparr>emitted = events s3, store = sessions', raised = None\<rparr>))"

section \<open>Stage Pipeline Executor (MAS.py)\<close>

text \<open>
  The request settings the pipeline reads: \<open>settings.get('auto_mode')\<close> and
  \<open>settings.get('manual_protocols', {})\<close>. A flag dictionary is the list of its items, each
  key once, every value reduced to its truth value, which is all the pipeline looks at.
  \<open>settings.get('temp', 0.7)\<close> is a sampling parameter, forwarded to the service.
\<close>

type_synonym flags = "(string \<times> bool) list"

record settings =
  auto_mode :: bool
  manual_protocols :: flags

text \<open>\<open>feats.get(k)\<close> as a condition: a missing key is \<open>None\<close>, which is false.\<close>

definition flag :: "flags \<Rightarrow> string \<Rightarrow> bool" where
  "flag feats k = (case map_of feats k of Some v \<Rightarrow> v | None \<Rightarrow> False)"

record pstate = run_state +
  prompts :: "string list"

text \<open>\<open>CoreEngine.inference\<close> of MAS.py, without and with \<open>stream=True\<close>.\<close>

definition full_prompt_MAS :: "string \<Rightarrow> string" where
  "full_prompt_MAS prompt =
     ''<|system|>\<newline>System\<newline><|user|>\<newline>'' @ prompt @ ''\<newline><|assistant|>\<newline>''"

definition inference_MAS :: "gateway \<Rightarrow> string \<Rightarrow> pstate \<Rightarrow> string option \<times> pstate" where
  "inference_MAS g prompt s =
     (create_completion g (length (prompts s)) (full_prompt_MAS prompt),
      s\<lparr>prompts := prompts s @ [full_prompt_MAS prompt]\<rparr>)"

definition inference_stream_MAS ::
  "gateway \<Rightarrow> string \<Rightarrow> pstate \<Rightarrow> (string list \<times> string option) option \<times> pstate" where
  "inference_stream_MAS g prompt s =
     (create_stream g (length (prompts s)) (full_prompt_MAS prompt),
      s\<lparr>prompts := prompts s @ [full_prompt_MAS prompt]\<rparr>)"

definition default_feats :: flags where
  "default_feats = [(''facts'', True), (''plan'', True), (''simulation'', True)]"

text \<open>
  The body of the \<open>try\<close> in the Feature Selector (lines 106 to 109). \<open>json_span\<close> is
  the slice \<^verbatim>\<open>txt[txt.find('{'):txt.rfind('}')+1]\<close>. \<open>json.loads\<close> is the parameter \<open>loads\<close>:
  \<open>None\<close> when it raises, else the items of the parsed object (a span that parses starts
  with \<open>{\<close>, so what it parses to is a dictionary). The result is the new \<open>feats\<close> and
  the log event, or the exception. \<open>selector_prompt\<close> is the text \<open>selector\<close>
  of lines 96 to 102.
\<close>

definition json_span :: "string \<Rightarrow> string" where
  "json_span txt = slice txt (find_chr (CHR ''{'') txt) (rfind_chr (CHR ''}'') txt + 1)"

definition selector_try :: "(string \<Rightarrow> flags option) \<Rightarrow> string \<Rightarrow> error + (flags \<times> event)" where
  "selector_try loads txt =
     (case loads (json_span txt) of
        None \<Rightarrow> Inl JSONDecodeError
      | Some j \<Rightarrow>
          Inr (j, msg ''log'' (''Auto-Selected: '' @ join '', '' (map fst (filter snd j))) None))"

definition selector_prompt :: "string \<Rightarrow> string" where
  "selector_prompt prompt =
     ''Task: '' @ prompt @ ''\<newline>'' @
     ''Identify required protocols. Output JSON boolean.\<newline>'' @
     ''Keys: facts, deep, topology, plan, debate, simulation, audit.\<newline>'' @
     ''Example: {'' @ [CHR 0x22] @ ''facts'' @ [CHR 0x22] @ '': true, '' @
     [CHR 0x22] @ ''deep'' @ [CHR 0x22] @ '': false}\<newline>'' @
     ''JSON:''"

text \<open>Feature Selector (lines 92 to 111): the flags \<open>feats\<close> the stages are gated by.\<close>

definition select_features ::
  "gateway \<Rightarrow> (string \<Rightarrow> flags option) \<Rightarrow> string \<Rightarrow> settings \<Rightarrow> pstate \<Rightarrow> flags \<times> pstate" where
  "select_features g loads prompt settings s0 =
     (let feats = manual_protocols settings
      in if auto_mode settings then
           let s1 = emit (msg ''status'' ''Dynamic Protocol Selection...'' None) s0;
               selector = selector_prompt prompt;
               (res, s2) = inference_MAS g selector s1
           in (case res of
                 None \<Rightarrow> (feats, s2)
               | Some txt \<Rightarrow>
                   (case selector_try loads txt of
                      Inr (j, e) \<Rightarrow> (j, emit e s2)
                    | Inl exc \<Rightarrow> (default_feats, s2)))
         else (feats, s0))"

definition history_txt_of :: "turn list \<Rightarrow> string" where
  "history_txt_of h =
     concat (map (\<lambda>m. (if role m = ''user'' then ''User'' else ''Assistant'') @ '': '' @
                       content m @ ''\<newline>'') (slice_from h (- 4)))"

text \<open>Facts extraction (lines 123 to 128); the result is \<open>cfs\<close>.\<close>

definition facts_stage :: "gateway \<Rightarrow> string \<Rightarrow> flags \<Rightarrow> pstate \<Rightarrow> string \<times> pstate" where
  "facts_stage g prompt feats s0 =
     (if flag feats ''facts'' then
        let s1 = emit (msg ''status'' ''0.0 Parmenides (Facts)'' None) s0;
            (r, s2) = inference_MAS g (''Extract Axioms & Constraints:\<newline>'' @ prompt) s1
        in (case r of
              Some t \<Rightarrow> (strip t, emit (msg ''card'' (strip t) (Some ''Facts'')) s2)
            | None \<Rightarrow> ([], s2))
      else ([], s0))"

text \<open>Deep analysis (lines 130 to 133).\<close>

definition deep_stage :: "gateway \<Rightarrow> string \<Rightarrow> string \<Rightarrow> flags \<Rightarrow> pstate \<Rightarrow> pstate" where
  "deep_stage g prompt cfs feats s0 =
     (if flag feats ''deep'' then
        let s1 = emit (msg ''status'' ''14.0 Noesis (Deep Analysis)'' None) s0;
            (r, s2) = inference_MAS g (''Deep Analysis:\<newline>'' @ prompt @ ''\<newline>Context: '' @ cfs) s1
        in (case r of
              Some t \<Rightarrow> emit (msg ''card'' (strip t) (Some ''Analysis'')) s2
            | None \<Rightarrow> s2)
      else s0)"

text \<open>Topology mapping (lines 135 to 138).\<close>

definition topology_stage :: "gateway \<Rightarrow> string \<Rightarrow> flags \<Rightarrow> pstate \<Rightarrow> pstate" where
  "topology_stage g prompt feats s0 =
     (if flag feats ''topology'' then
        let s1 = emit (msg ''status'' ''16.0 Utias (Topology)'' None) s0;
            (r, s2) = inference_MAS g (''Dependency Mapping:\<newline>'' @ prompt) s1
        in (case r of
              Some t \<Rightarrow> emit (msg ''card'' (strip t) (Some ''Topology'')) s2
            | None \<Rightarrow> s2)
      else s0)"

text \<open>Blueprint (lines 140 to 144); the result is \<open>feb\<close>.\<close>

definition blueprint_stage :: "gateway \<Rightarrow> string \<Rightarrow> string \<Rightarrow> pstate \<Rightarrow> string \<times> pstate" where
  "blueprint_stage g prompt cfs s0 =
     (let s1 = emit (msg ''status'' ''0-Phase Prometheus (Blueprint)'' None) s0;
          (r, s2) = inference_MAS g (''Execution Blueprint:\<newline>'' @ prompt @ ''\<newline>Facts: '' @ cfs) s1
      in (case r of
            Some t \<Rightarrow> (strip t, emit (msg ''card'' (strip t) (Some ''Blueprint'')) s2)
          | None \<Rightarrow> ([], s2)))"

text \<open>
  Debate (lines 146 to 158); the result is \<open>final_plan\<close>. The two plan calls subscript
  the result of \<open>ENGINE.inference\<close> directly: on \<open>None\<close> that is a \<open>TypeError\<close>.
\<close>

definition debate_stage ::
  "gateway \<Rightarrow> string \<Rightarrow> flags \<Rightarrow> pstate \<Rightarrow> pstate \<times> (error + string)" where
  "debate_stage g feb feats s0 =
     (let final_plan = feb
      in if flag feats ''debate'' then
           let s1 = emit (msg ''status'' ''5.0 Agon (Multi-Agent)'' None) s0;
               s2 = emit (msg ''log'' ''Strategos Alpha...'' None) s1;
               (r1, s3) = inference_MAS g (''Safe Plan:\<newline>'' @ feb) s2
           in (case r1 of
                 None \<Rightarrow> (s3, Inl TypeError)
               | Some p1 \<Rightarrow>
                   let s4 = emit (msg ''log'' ''Strategos Beta...'' None) s3;
                       (r2, s5) = inference_MAS g (''Risky Plan:\<newline>'' @ feb) s4
                   in (case r2 of
                         None \<Rightarrow> (s5, Inl TypeError)
                       | Some p2 \<Rightarrow>
                           let s6 = emit (msg ''log'' ''Dikastes Verdict...'' None) s5;
                               (v, s7) = inference_MAS g
                                 (''Select Best:\<newline>A: '' @ p1 @ ''\<newline>B: '' @ p2) s6
                           in (case v of
                                 Some t \<Rightarrow>
                                   (emit (msg ''card'' (strip t) (Some ''Verdict'')) s7, Inr (strip t))
                               | None \<Rightarrow> (s7, Inr final_plan))))
         else (s0, Inr final_plan))"

text \<open>
  Execution (lines 160 to 173); the result is \<open>full_resp\<close>. The loop over the stream is
  not inside a \<open>try\<close>: an exception raised while iterating leaves the generator.
\<close>

definition execution_stage ::
  "gateway \<Rightarrow> string \<Rightarrow> string \<Rightarrow> string \<Rightarrow> pstate \<Rightarrow> pstate \<times> (error + string)" where
  "execution_stage g prompt final_plan history_txt s0 =
     (let s1 = emit (msg ''status'' ''19.0 Hephaestus (Execution)'' None) s0;
          (stream, s2) = inference_stream_MAS g
            (''Task: '' @ prompt @ ''\<newline>Plan: '' @ final_plan @ ''\<newline>History: '' @ history_txt @
             ''\<newline>Execute.'') s1
      in (case stream of
            None \<Rightarrow> (s2, Inr [])
          | Some (chunks, exc) \<Rightarrow>
              let s3 = foldl (\<lambda>s txt. emit (msg ''token'' txt None) s) s2 chunks
              in (case exc of
                    None \<Rightarrow> (s3, Inr (concat chunks))
                  | Some e \<Rightarrow> (s3, Inl (StreamError e)))))"

text \<open>Simulation and repair (lines 175 to 187); the result is the new \<open>full_resp\<close>.\<close>

definition simulation_stage :: "gateway \<Rightarrow> string \<Rightarrow> flags \<Rightarrow> pstate \<Rightarrow> string \<times> pstate" where
  "simulation_stage g full_resp feats s0 =
     (if flag feats ''simulation'' \<and> contains ''```'' full_resp then
        let s1 = emit (msg ''status'' ''26.0 Basanos (Simulation)'' None) s0;
            (r, s2) = inference_MAS g (''Simulate code execution. Output Logs:\<newline>'' @ full_resp) s1
        in (case r of
              None \<Rightarrow> (full_resp, s2)
            | Some t \<Rightarrow>
                let logs = strip t;
                    s3 = emit (msg ''card'' logs (Some ''Sim Logs'')) s2
                in if contains ''Error'' logs \<or> contains ''Traceback'' logs then
                     let s4 = emit (msg ''status'' ''4.5 Anakainosis (Repair)'' None) s3;
                         (f, s5) = inference_MAS g
                           (''Fix code using logs:\<newline>Code: '' @ full_resp @ ''\<newline>Logs: '' @ logs) s4
                     in (case f of
                           None \<Rightarrow> (full_resp, s5)
                         | Some t' \<Rightarrow>
                             let fix = strip t'
                             in (full_resp @ ''\<newline>\<newline>### Auto-Repair\<newline>'' @ fix,
                                 emit (msg ''token'' (''\<newline>\<newline>### Auto-Repair\<newline>'' @ fix) None) s5))
                   else (full_resp, s3))
      else (full_resp, s0))"

text \<open>Audit (lines 189 to 192).\<close>

definition audit_stage :: "gateway \<Rightarrow> string \<Rightarrow> flags \<Rightarrow> pstate \<Rightarrow> pstate" where
  "audit_stage g full_resp feats s0 =
     (if flag feats ''audit'' then
        let s1 = emit (msg ''status'' ''29.0 Praetorian (Audit)'' None) s0;
            (r, s2) = inference_MAS g (''Security Audit:\<newline>'' @ full_resp) s1
        in (case r of
              Some t \<Rightarrow> emit (msg ''card'' (strip t) (Some ''Audit'')) s2
            | None \<Rightarrow> s2)
      else s0)"

text \<open>
  The stages from the start of the generator up to the audit: the state they leave and
  either the exception that left the generator or \<open>full_resp\<close>.
\<close>

definition run_stages ::
  "gateway \<Rightarrow> (string \<Rightarrow> flags option) \<Rightarrow> session \<Rightarrow> string \<Rightarrow> settings
     \<Rightarrow> pstate \<times> (error + string)" where
  "run_stages g loads sess prompt settings =
     (let s0 = emit (msg ''status'' ''Initializing SSESIS v1.0...'' None) \<lparr>events = [], prompts = []\<rparr>;
          (feats, s1) = select_features g loads prompt settings s0;
          history_txt = history_txt_of (history sess);
          s2 = emit (msg ''status'' ''Apollo Integrity Check'' None) s1;
          (cfs, s3) = facts_stage g prompt feats s2;
          s4 = deep_stage g prompt cfs feats s3;
          s5 = topology_stage g prompt feats s4;
          (feb, s6) = blueprint_stage g prompt cfs s5
      in (case debate_stage g feb feats s6 of
            (s7, Inl e) \<Rightarrow> (s7, Inl e)
          | (s7, Inr final_plan) \<Rightarrow>
              (case execution_stage g prompt final_plan history_txt s7 of
                 (s8, Inl e) \<Rightarrow> (s8, Inl e)
               | (s8, Inr full_resp) \<Rightarrow>
                   let (full_resp', s9) = simulation_stage g full_resp feats s8;
                       s10 = audit_stage g full_resp' feats s9
                   in (s10, Inr full_resp'))))"

text \<open>\<open>process_pipeline\<close> of MAS.py.\<close>

definition process_pipeline_MAS ::
  "gateway \<Rightarrow> (string \<Rightarrow> flags option) \<Rightarrow> sessions \<Rightarrow> string \<Rightarrow> string \<Rightarrow> settings
     \<Rightarrow> run_result" where
  "process_pipeline_MAS g loads sessions prompt session_id settings =
     (case get_session sessions session_id of
        None \<Rightarrow> \<lparr>emitted = [], store = sessions, raised = None\<rparr>
      | Some sess \<Rightarrow>
          (case run_stages g loads sess prompt settings of
             (s, Inl e) \<Rightarrow> \<lparr>emitted = events s, store = sessions, raised = Some e\<rparr>
           | (s, Inr full_resp) \<Rightarrow>
               let s' = emit (msg ''status'' ''10.0 Kerberos (Final Gateway)'' None) s;
                   sessions' = sessions(session_id \<mapsto>
                     sess\<lparr>history := history sess @
                            [\<lparr>role = ''user'', content = prompt\<rparr>,
                             \<lparr>role = ''assistant'', content = full_resp\<rparr>]\<rparr>);
                   s'' = emit (msg ''done'' ''Ready'' None) s'
               in \<lparr>emitted = events s'', store = sessions', raised = None\<rparr>))"

section \<open>Sample inputs\<close>

text \<open>No model loaded: every gateway call finds \<open>ENGINE.model is None\<close>.\<close>

definition no_model :: gateway where
  "no_model = \<lparr>create_completion = (\<lambda>n p. None), create_stream = (\<lambda>n p. None)\<rparr>"

text \<open>
  A loaded model that answers the \<open>n\<close>-th call of a run with the \<open>n\<close>-th text of
  \<open>replies\<close> (with the empty text once they are used up) and every streaming call with
  the increments \<open>chunks\<close>.
\<close>

definition scripted :: "string list \<Rightarrow> string list \<Rightarrow> gateway" where
  "scripted replies chunks =
     \<lparr>create_completion = (\<lambda>n p. if n < length replies then Some (replies ! n) else Some []),
      create_stream = (\<lambda>n p. Some (chunks, None))\<rparr>"

text \<open>A store with the one session \<open>s1\<close>, as \<open>create_session\<close> leaves it.\<close>

definition one_session :: sessions where
  "one_session = [''s1'' \<mapsto> \<lparr>sid = ''s1'', title = ''New Operation'', history = [], created = 0\<rparr>]"

text \<open>
  \<open>json.loads\<close> on the one array text \<^verbatim>\<open>["Design schema", "Write handlers"]\<close>; it raises on
  every other text.
\<close>

definition two_subtasks :: string where
  "two_subtasks = ''['' @ [CHR 0x22] @ ''Design schema'' @ [CHR 0x22] @ '', '' @
                  [CHR 0x22] @ ''Write handlers'' @ [CHR 0x22] @ '']''"

definition loads_two_subtasks :: "string \<Rightarrow> pyval list option" where
  "loads_two_subtasks txt =
     (if txt = two_subtasks then Some [Str ''Design schema'', Str ''Write handlers''] else None)"

text \<open>\<open>json.loads\<close> that raises on every text.\<close>

definition loads_fails :: "string \<Rightarrow> 'a option" where
  "loads_fails txt = None"

text \<open>The state of a decomposition run before anything has happened.\<close>

definition empty_state :: dstate where
  "empty_state = \<lparr>events = [], calls = [], global_context = []\<rparr>"

text \<open>The MAIN node of a request, and a SUB node at the depth bound.\<close>

definition main_node :: task_node where
  "main_node = \<lparr>n_depth = 1, n_task = Str ''Plan and build a REST API'', n_type = MAIN\<rparr>"

definition deep_node :: task_node where
  "deep_node = \<lparr>n_depth = 3, n_task = Str ''Write handlers'', n_type = SUB\<rparr>"

text \<open>
  Models for the decomposition engine. \<open>answering_model\<close> finds the request simple and
  streams the answer \<open>4\<close>. \<open>planning_model\<close> finds it complex and names a goal and a
  plan. \<open>splitting_model split\<close> also answers \<open>NO\<close> to the single-step question and
  then \<open>split\<close> to the split request.
\<close>

definition answering_model :: gateway where
  "answering_model = scripted [''NO''] [''4'']"

definition planning_model :: gateway where
  "planning_model = scripted [''YES'', ''Write the code'', ''Open the file''] [''ok'']"

definition splitting_model :: "string \<Rightarrow> gateway" where
  "splitting_model split = scripted [''YES'', ''Build it'', ''Do a then b'', ''NO'', split] [''ok'']"

text \<open>The text \<^verbatim>\<open>["Design schema", "Write\<close>: an array cut off in the middle.\<close>

definition truncated_array :: string where
  "truncated_array = ''['' @ [CHR 0x22] @ ''Design schema'' @ [CHR 0x22] @ '', '' @
                     [CHR 0x22] @ ''Write''"

text \<open>What the split of \<open>main_node\<close> into the two sub-tasks appends to the stack.\<close>

definition split_nodes :: "task_node list" where
  "split_nodes =
     [\<lparr>n_depth = 1, n_task = Str ''Plan and build a REST API'', n_type = RESUME\<rparr>,
      \<lparr>n_depth = 2, n_task = Str ''Write handlers'', n_type = SUB\<rparr>,
      \<lparr>n_depth = 2, n_task = Str ''Design schema'', n_type = SUB\<rparr>]"

text \<open>The list \<open>loads_two_subtasks\<close> parses \<open>two_subtasks\<close> to.\<close>

definition design_and_write :: "pyval list" where
  "design_and_write = [Str ''Design schema'', Str ''Write handlers'']"

text \<open>Settings of the pipeline: the debate stage alone, and auto mode over an audit flag.\<close>

definition debate_only :: settings where
  "debate_only = \<lparr>auto_mode = False, manual_protocols = [(''debate'', True)]\<rparr>"

definition auto_over_audit :: settings where
  "auto_over_audit = \<lparr>auto_mode = True, manual_protocols = [(''audit'', True)]\<rparr>"


text \<open>A model for the pipeline whose first reply holds no JSON object.\<close>

definition chatty_model :: gateway where
  "chatty_model = scripted [''no json here''] [''ok'']"

text \<open>The session of \<open>one_session\<close>.\<close>

definition first_session :: session where
  "first_session = \<lparr>sid = ''s1'', title = ''New Operation'', history = [], created = 0\<rparr>"


section \<open>Auxiliary definitions\<close>

text \<open>
  The events a run yields before its end: none of them is a \<open>done\<close> event, and every
  \<open>card\<close> event has a target.
\<close>

definition body_ok :: "event list \<Rightarrow> bool" where
  "body_ok evs = (\<forall>e \<in> set evs. ev_type e \<noteq> ''done'' \<and> (ev_type e = ''card'' \<longrightarrow> ev_target e \<noteq> None))"

text \<open>
  \<open>run_each\<close> runs the loop on each node of a list in turn, every node on a stack of its
  own: a node is processed together with everything it pushes before the next node of the
  list is looked at.
\<close>

fun run_each ::
  "gateway \<Rightarrow> (string \<Rightarrow> pyval list option) \<Rightarrow> task_node list \<Rightarrow> dstate
     \<Rightarrow> dstate \<times> error option" where
  "run_each g loads [] s = (s, None)"
| "run_each g loads (n # ns) s =
     (case run_stack g loads [n] s of
        (s', Some e) \<Rightarrow> (s', Some e)
      | (s', None) \<Rightarrow> run_each g loads ns s')"

text \<open>
  A well-formed event stream: at most one \<open>done\<close> event, a \<open>done\<close> event only in the last
  place, and a target on every \<open>card\<close> event.
\<close>

definition stream_ok :: "event list \<Rightarrow> bool" where
  "stream_ok evs =
     (length (filter (\<lambda>e. ev_type e = ''done'') evs) \<le> 1 \<and>
      (\<forall>i < length evs. ev_type (evs ! i) = ''done'' \<longrightarrow> Suc i = length evs) \<and>
      (\<forall>e \<in> set evs. ev_type e = ''card'' \<longrightarrow> ev_target e \<noteq> None))"

section \<open>Properties\<close>




subsection \<open>What each part of the decomposition engine does to the state\<close>

lemma events_emit: "events (emit e s) = events s @ [e]"
  by (simp add: emit_def)

lemma calls_emit: "calls (emit e s) = calls s"
  by (simp add: emit_def)

lemma global_context_emit: "global_context (emit e s) = global_context s"
  by (simp add: emit_def)

lemma body_ok_Nil: "body_ok []"
  by (simp add: body_ok_def)

lemma body_ok_append:
  "body_ok (xs @ ys) = (body_ok xs \<and> body_ok ys)"
  by (auto simp: body_ok_def)

lemma body_ok_Cons:
  "body_ok (msg t c tgt # evs) = (t \<noteq> ''done'' \<and> (t = ''card'' \<longrightarrow> tgt \<noteq> None) \<and> body_ok evs)"
  by (auto simp: body_ok_def msg_def)



lemma events_inference: "events (snd (inference g st p s)) = events s"
  by (simp add: inference_def Let_def)

lemma global_context_inference: "global_context (snd (inference g st p s)) = global_context s"
  by (simp add: inference_def Let_def)


lemma body_ok_tokens:
  "body_ok (events (foldl (\<lambda>s txt. emit (msg ''token'' txt None) s) s chunks)) = body_ok (events s)"
  by (induction chunks arbitrary: s) (simp_all add: events_emit body_ok_append body_ok_Cons body_ok_Nil)

lemma events_tokens:
  "events (foldl (\<lambda>s txt. emit (msg ''token'' txt None) s) s chunks) =
     events s @ map (\<lambda>txt. msg ''token'' txt None) chunks"
  by (induction chunks arbitrary: s) (simp_all add: events_emit)

lemma calls_tokens:
  "calls (foldl (\<lambda>s txt. emit (msg ''token'' txt None) s) s chunks) = calls s"
  by (induction chunks arbitrary: s) (simp_all add: calls_emit)

lemma global_context_tokens:
  "global_context (foldl (\<lambda>s txt. emit (msg ''token'' txt None) s) s chunks) = global_context s"
  by (induction chunks arbitrary: s) (simp_all add: global_context_emit)

lemma sites_inference:
  "map fst (calls (snd (inference g st p s))) = map fst (calls s) @ [st]"
  by (simp add: inference_def Let_def)

lemmas frame_simps = events_emit calls_emit global_context_emit events_inference
  global_context_inference sites_inference body_ok_append body_ok_Cons body_ok_Nil

lemma router_frame:
  "body_ok (events (snd (router g depth task s))) = body_ok (events s)"
  "global_context (snd (router g depth task s)) = global_context s"
  "map fst (calls (snd (router g depth task s))) = map fst (calls s) @ [P_router]"
  by (simp_all add: router_def Let_def split_beta frame_simps)

lemma simple_path_frame:
  "body_ok (events (snd (simple_path depth s))) = body_ok (events s)"
  "global_context (snd (simple_path depth s)) = global_context s"
  "calls (snd (simple_path depth s)) = calls s"
  "snd (snd (fst (simple_path depth s))) = ''YES''"
  by (simp_all add: simple_path_def Let_def frame_simps)

lemma extract_goal_frame:
  "body_ok (events (snd (extract_goal g depth task s))) = body_ok (events s)"
  "global_context (snd (extract_goal g depth task s)) = global_context s"
  "map fst (calls (snd (extract_goal g depth task s))) = map fst (calls s) @ [P_what]"
  by (simp_all add: extract_goal_def Let_def split_beta frame_simps)

lemma extract_plan_frame:
  "body_ok (events (snd (extract_plan g depth task w s))) = body_ok (events s)"
  "global_context (snd (extract_plan g depth task w s)) = global_context s"
  "map fst (calls (snd (extract_plan g depth task w s))) = map fst (calls s) @ [P_how]"
  by (simp_all add: extract_plan_def Let_def split_beta frame_simps)

lemma single_step_frame:
  "body_ok (events (snd (single_step g depth h s))) = body_ok (events s)"
  "global_context (snd (single_step g depth h s)) = global_context s"
  "map fst (calls (snd (single_step g depth h s))) =
     map fst (calls s) @ (if depth < MAX_DEPTH then [P_is] else [])"
  "MAX_DEPTH \<le> depth \<Longrightarrow> fst (single_step g depth h s) = ''YES''"
  by (simp_all add: single_step_def Let_def split_beta frame_simps split: option.split)

lemma body_ok_whi_analysis:
  "body_ok (events (snd (whi_analysis g depth task s))) = body_ok (events s)"
  by (simp add: whi_analysis_def Let_def split_beta router_frame simple_path_frame
        extract_goal_frame extract_plan_frame single_step_frame)


lemma sites_whi_analysis:
  "map fst (calls (snd (whi_analysis g depth task s))) = map fst (calls s) @ [P_router] \<or>
   map fst (calls (snd (whi_analysis g depth task s))) =
     map fst (calls s) @ [P_router, P_what, P_how] @ (if depth < MAX_DEPTH then [P_is] else [])"
  by (simp add: whi_analysis_def Let_def split_beta router_frame simple_path_frame
        extract_goal_frame extract_plan_frame single_step_frame)

lemma whi_analysis_at_bound:
  "MAX_DEPTH \<le> depth \<Longrightarrow> snd (snd (fst (whi_analysis g depth task s))) = ''YES''"
  by (simp add: whi_analysis_def Let_def split_beta simple_path_frame single_step_frame)

lemma body_ok_execute_leaf:
  "body_ok (events (fst (execute_leaf g depth task w h s))) = body_ok (events s)"
  by (simp add: execute_leaf_def Let_def split_beta events_emit body_ok_tokens frame_simps
           split: option.split)

lemma inference_frame:
  assumes "inference g st p s = (r, s')"
  shows "events s' = events s" and "global_context s' = global_context s"
    and "calls s' = calls s @ [(st, ''### Instruction:\<newline>'' @ p @ ''\<newline>\<newline>### Response:\<newline>'')]"
  using assms by (auto simp: inference_def Let_def)

lemma whi_analysis_body:
  assumes "whi_analysis g depth task s = (v, s')"
  shows "body_ok (events s') = body_ok (events s)"
  using body_ok_whi_analysis [of g depth task s] assms by simp

lemma execute_leaf_body:
  assumes "execute_leaf g depth task w h s = (s', x)"
  shows "body_ok (events s') = body_ok (events s)"
  using body_ok_execute_leaf [of g depth task w h s] assms by simp

lemma body_ok_process_node:
  assumes "process_node g loads item s = (s', r)"
  shows "body_ok (events s') = body_ok (events s)"
  using assms
proof (cases rule: process_node_cases)
  case Resume
  then show ?thesis by (simp add: frame_simps)
next
  case (Split val_w val_h s1 p res_split s3 pushed c)
  have "body_ok (events s1) = body_ok (events s)"
    using Split(2) by (rule whi_analysis_body)
  moreover have "body_ok (events s3) = body_ok (events s1)"
    using inference_frame(1) [OF Split(3)] by (simp add: frame_simps)
  moreover have "body_ok (events s') = body_ok (events s3)"
    using Split(5) by (simp add: frame_simps)
  ultimately show ?thesis by simp
next
  case (NoMatch val_w val_h s1 p res_split)
  have "body_ok (events s1) = body_ok (events s)"
    using NoMatch(2) by (rule whi_analysis_body)
  moreover have "body_ok (events s') = body_ok (events s1)"
    using inference_frame(1) [OF NoMatch(3)] by (simp add: frame_simps)
  ultimately show ?thesis by simp
next
  case (Caught val_w val_h s1 p res_split s3 pushed e x)
  have "body_ok (events s1) = body_ok (events s)"
    using Caught(2) by (rule whi_analysis_body)
  moreover have "body_ok (events s3) = body_ok (events s1)"
    using inference_frame(1) [OF Caught(3)] by (simp add: frame_simps)
  moreover have "body_ok (events s') = body_ok (events s3)"
    using Caught(5) by (rule execute_leaf_body)
  ultimately show ?thesis by simp
next
  case (Leaf val_w val_h val_i s1 x)
  have "body_ok (events s1) = body_ok (events s)"
    using Leaf(2) by (rule whi_analysis_body)
  moreover have "body_ok (events s') = body_ok (events s1)"
    using Leaf(4) by (rule execute_leaf_body)
  ultimately show ?thesis by simp
qed

lemma run_stack_body:
  "body_ok (events (fst (run_stack g loads stk s))) = body_ok (events s)"
proof (induction g loads stk s rule: run_stack.induct)
  case (1 g loads task_stack s)
  show ?case
  proof (cases "task_stack = []")
    case True
    then show ?thesis by (simp add: run_stack.simps)
  next
    case False
    obtain s1 r1 where p: "process_node g loads (last task_stack) s = (s1, r1)"
      by (metis prod.exhaust)
    have b1: "body_ok (events s1) = body_ok (events s)"
      using p by (rule body_ok_process_node)
    show ?thesis
    proof (cases r1)
      case (Inl e)
      with False p b1 show ?thesis by (simp add: run_stack.simps [of g loads task_stack])
    next
      case (Inr pushed)
      with False p have "run_stack g loads task_stack s = run_stack g loads (butlast task_stack @ pushed) s1"
        by (simp add: run_stack.simps [of g loads task_stack])
      with "1.IH" [OF False p [symmetric] Inr] b1 show ?thesis by simp
    qed
  qed
qed

lemma run_stack_append:
  "run_stack g loads (rest @ stk) s =
     (case run_stack g loads stk s of
        (s', Some e) \<Rightarrow> (s', Some e)
      | (s', None) \<Rightarrow> run_stack g loads rest s')"
proof (induction g loads stk s arbitrary: rest rule: run_stack.induct)
  case (1 g loads task_stack s)
  show ?case
  proof (cases "task_stack = []")
    case True
    then show ?thesis by (simp add: run_stack.simps [of g loads "[]"])
  next
    case False
    obtain s1 r1 where p: "process_node g loads (last task_stack) s = (s1, r1)"
      by (metis prod.exhaust)
    show ?thesis
    proof (cases r1)
      case (Inl e)
      with False p show ?thesis
        by (simp add: run_stack.simps [of g loads task_stack] run_stack.simps [of g loads "rest @ task_stack"])
    next
      case (Inr pushed)
      have "run_stack g loads (rest @ task_stack) s
              = run_stack g loads (rest @ (butlast task_stack @ pushed)) s1"
        using False p Inr
        by (simp add: run_stack.simps [of g loads "rest @ task_stack"] butlast_append)
      also have "\<dots> = (case run_stack g loads (butlast task_stack @ pushed) s1 of
            (s', Some e) \<Rightarrow> (s', Some e) | (s', None) \<Rightarrow> run_stack g loads rest s')"
        by (rule "1.IH" [OF False p [symmetric] Inr])
      also have "run_stack g loads (butlast task_stack @ pushed) s1 = run_stack g loads task_stack s"
        using False p Inr by (simp add: run_stack.simps [of g loads task_stack])
      finally show ?thesis .
    qed
  qed
qed


lemma execute_leaf_result:
  assumes "execute_leaf g depth task w h s = (s', x)"
  shows "\<exists>p. calls s' = calls s @ [(Prompt_exec, p)] \<and>
           msg ''status'' (prefix_of depth @ '' Status: CLEAR. Executing...'') None \<in> set (events s') \<and>
           (case create_stream g (length (calls s)) p of
              None \<Rightarrow> x = Some AttributeError \<and> global_context s' = global_context s
            | Some (chunks, exc) \<Rightarrow> x = None \<and>
                global_context s' = global_context s @ ''\<newline>User: '' @ fmt task @
                  ''\<newline>AI: '' @ concat chunks @ ''\<newline>'')"
  using assms
  by (auto simp: execute_leaf_def Let_def calls_emit calls_tokens events_emit global_context_emit
        global_context_tokens events_tokens
      split: option.splits)


lemma run_stack_rev:
  "run_stack g loads (rev ns) s = run_each g loads ns s"
proof (induction ns arbitrary: s)
  case Nil
  show ?case by (simp add: run_stack.simps [of g loads "[]"])
next
  case (Cons n ns)
  have "run_stack g loads (rev (n # ns)) s = run_stack g loads (rev ns @ [n]) s" by simp
  also have "\<dots> = (case run_stack g loads [n] s of
        (s', Some e) \<Rightarrow> (s', Some e) | (s', None) \<Rightarrow> run_stack g loads (rev ns) s')"
    by (rule run_stack_append)
  also have "\<dots> = run_each g loads (n # ns) s"
    by (simp add: Cons.IH split: prod.split option.split)
  finally show ?case .
qed

lemma run_stack_resume:
  "run_stack g loads [\<lparr>n_depth = d, n_task = t, n_type = RESUME\<rparr>] s =
     (emit (msg ''card'' (''Sub-tasks completed for: '' @ fmt t) (Some (prefix_of d @ '' Context'')))
        (emit (msg ''status'' (prefix_of d @ '' Context Aggregation...'') None) s), None)"
  by (simp add: run_stack.simps [of g loads "[x]" for x] run_stack.simps [of g loads "[]"]
        process_node_def Let_def)


subsection \<open>What each stage of the pipeline does to the events\<close>

lemma events_inference_MAS:
  "events (snd (inference_MAS g p s)) = events s"
  "events (snd (inference_stream_MAS g p s)) = events s"
  by (simp_all add: inference_MAS_def inference_stream_MAS_def)

lemmas stage_simps = events_emit events_inference_MAS body_ok_append body_ok_Cons body_ok_Nil

lemma body_ok_select_features:
  "body_ok (events (snd (select_features g loads prompt settings s))) = body_ok (events s)"
  by (simp add: select_features_def selector_try_def Let_def split_beta stage_simps
           split: option.split sum.split)

lemma body_ok_facts_stage:
  "body_ok (events (snd (facts_stage g prompt feats s))) = body_ok (events s)"
  by (simp add: facts_stage_def Let_def split_beta stage_simps split: option.split)

lemma body_ok_deep_stage:
  "body_ok (events (deep_stage g prompt cfs feats s)) = body_ok (events s)"
  by (simp add: deep_stage_def Let_def split_beta stage_simps split: option.split)

lemma body_ok_topology_stage:
  "body_ok (events (topology_stage g prompt feats s)) = body_ok (events s)"
  by (simp add: topology_stage_def Let_def split_beta stage_simps split: option.split)

lemma body_ok_blueprint_stage:
  "body_ok (events (snd (blueprint_stage g prompt cfs s))) = body_ok (events s)"
  by (simp add: blueprint_stage_def Let_def split_beta stage_simps split: option.split)

lemma body_ok_debate_stage:
  "body_ok (events (fst (debate_stage g feb feats s))) = body_ok (events s)"
  by (simp add: debate_stage_def Let_def split_beta stage_simps split: option.split)

lemma body_ok_tokens_MAS:
  "body_ok (events (foldl (\<lambda>s txt. emit (msg ''token'' txt None) s) (s :: pstate) chunks))
     = body_ok (events s)"
  by (induction chunks arbitrary: s) (simp_all add: stage_simps)

lemma body_ok_execution_stage:
  "body_ok (events (fst (execution_stage g prompt final_plan history_txt s))) = body_ok (events s)"
  by (simp add: execution_stage_def Let_def split_beta stage_simps body_ok_tokens_MAS
           split: option.split)

lemma body_ok_simulation_stage:
  "body_ok (events (snd (simulation_stage g full_resp feats s))) = body_ok (events s)"
  by (simp add: simulation_stage_def Let_def split_beta stage_simps split: option.split)

lemma body_ok_audit_stage:
  "body_ok (events (audit_stage g full_resp feats s)) = body_ok (events s)"
  by (simp add: audit_stage_def Let_def split_beta stage_simps split: option.split)

lemma body_ok_run_stages:
  "body_ok (events (fst (run_stages g loads sess prompt settings)))"
  by (simp add: run_stages_def Let_def split_beta stage_simps
        body_ok_select_features body_ok_facts_stage body_ok_deep_stage body_ok_topology_stage
        body_ok_blueprint_stage body_ok_debate_stage body_ok_execution_stage
        body_ok_simulation_stage body_ok_audit_stage
      split: sum.split)

lemma stream_ok_body:
  assumes "body_ok evs"
  shows "stream_ok evs"
proof -
  have "filter (\<lambda>e. ev_type e = ''done'') evs = []"
    using assms by (auto simp: body_ok_def filter_empty_conv)
  moreover have "\<forall>i < length evs. ev_type (evs ! i) \<noteq> ''done''"
    using assms by (auto simp: body_ok_def)
  ultimately show ?thesis using assms by (auto simp: stream_ok_def body_ok_def)
qed

lemma stream_ok_done:
  assumes "body_ok evs"
  shows "stream_ok (evs @ [msg ''done'' c None])"
proof -
  have f: "filter (\<lambda>e. ev_type e = ''done'') evs = []"
    using assms by (auto simp: body_ok_def filter_empty_conv)
  have n: "\<forall>i < length evs. ev_type (evs ! i) \<noteq> ''done''"
    using assms by (auto simp: body_ok_def)
  have "\<forall>i < length (evs @ [msg ''done'' c None]).
          ev_type ((evs @ [msg ''done'' c None]) ! i) = ''done'' \<longrightarrow>
          Suc i = length (evs @ [msg ''done'' c None])"
  proof (intro allI impI)
    fix i
    assume i: "i < length (evs @ [msg ''done'' c None])"
      and d: "ev_type ((evs @ [msg ''done'' c None]) ! i) = ''done''"
    show "Suc i = length (evs @ [msg ''done'' c None])"
    proof (cases "i < length evs")
      case True
      with d n show ?thesis by (simp add: nth_append)
    next
      case False
      with i show ?thesis by simp
    qed
  qed
  then show ?thesis
    using assms f by (auto simp: stream_ok_def body_ok_def msg_def)
qed

lemma stream_ok_Nil: "stream_ok []"
  by (simp add: stream_ok_def)







lemma inference_reply:
  assumes "inference g st p s = (r, s')"
  shows "\<exists>fp. r = create_completion g (length (calls s)) fp \<and> calls s' = calls s @ [(st, fp)]"
  using assms by (auto simp: inference_def Let_def)

lemma split_try_parsed:
  assumes "search_brackets reply = Some m" and "loads m = Some sub_tasks"
    and "split_try loads (Some reply) depth task = (pushed, x)"
  shows "pushed = \<lparr>n_depth = depth, n_task = task, n_type = RESUME\<rparr> #
           map (\<lambda>st. \<lparr>n_depth = depth + 1, n_task = st, n_type = SUB\<rparr>) (rev sub_tasks)"
    and "x \<noteq> Inr None"
  using assms by (auto simp: split_try_def Let_def split: option.splits)

lemma split_try_pushed_parsed:
  assumes "split_try loads res_split depth task = (pushed, x)" and "pushed \<noteq> []"
  shows "\<exists>reply m sub_tasks. res_split = Some reply \<and> search_brackets reply = Some m \<and>
           loads m = Some sub_tasks"
  using assms by (auto simp: split_try_def Let_def split: option.splits)

lemma whi_analysis_sites:
  assumes "whi_analysis g depth task s = (v, s')"
  shows "\<exists>new. map fst (calls s') = map fst (calls s) @ new \<and> P_split \<notin> set new \<and>
           Prompt_exec \<notin> set new"
  using sites_whi_analysis [of g depth task s] assms by auto

lemma new_call_site:
  assumes "map fst (calls s') = map fst (calls s) @ new"
    and "length (calls s) \<le> i" and "i < length (calls s')"
  shows "fst (calls s' ! i) \<in> set new"
proof -
  from arg_cong [OF assms(1), of length]
  have len: "length (calls s') = length (calls s) + length new" by simp
  have "fst (calls s' ! i) = map fst (calls s') ! i"
    using assms(3) by simp
  also have "\<dots> = new ! (i - length (calls s))"
    using assms(2) by (simp add: assms(1) nth_append)
  finally show ?thesis using len assms(2,3) by simp
qed

lemma calls_grow:
  assumes "map fst (calls s') = map fst (calls s) @ new"
  shows "length (calls s') = length (calls s) + length new"
  using arg_cong [OF assms, of length] by simp

text \<open>The split call of an iteration: its place in the log and its reply.\<close>

lemma split_call_unique:
  assumes w: "whi_analysis g depth task s = (v, s')"
    and i: "inference g P_split p (emit e s') = (res_split, s3)"
    and ext: "calls s1 = calls s3 \<or> (\<exists>q. calls s1 = calls s3 @ [(Prompt_exec, q)])"
  shows "length (calls s) \<le> length (calls s') \<and> length (calls s') < length (calls s1) \<and>
         (\<exists>fp. calls s1 ! length (calls s') = (P_split, fp) \<and>
               res_split = create_completion g (length (calls s')) fp) \<and>
         (\<forall>j fp. length (calls s) \<le> j \<and> j < length (calls s1) \<and> calls s1 ! j = (P_split, fp)
            \<longrightarrow> j = length (calls s'))"
proof -
  from whi_analysis_sites [OF w] obtain new where
    n: "map fst (calls s') = map fst (calls s) @ new" and ns: "P_split \<notin> set new" by blast
  from inference_reply [OF i] obtain fp where
    r: "res_split = create_completion g (length (calls s')) fp"
    and c3: "calls s3 = calls s' @ [(P_split, fp)]"
    by (auto simp: calls_emit)
  have le: "length (calls s) \<le> length (calls s')" using calls_grow [OF n] by simp
  have lt: "length (calls s') < length (calls s1)" using ext c3 by auto
  have at: "calls s1 ! length (calls s') = (P_split, fp)" using ext c3 by (auto simp: nth_append)
  have uniq: "j = length (calls s')"
    if j: "length (calls s) \<le> j" "j < length (calls s1)" "calls s1 ! j = (P_split, fp')" for j fp'
  proof (rule ccontr)
    assume ne: "j \<noteq> length (calls s')"
    show False
    proof (cases "j < length (calls s')")
      case True
      have "calls s1 ! j = calls s' ! j" using ext c3 True by (auto simp: nth_append)
      with new_call_site [OF n j(1) True] j(3) ns show False by simp
    next
      case False
      with ne have gt: "length (calls s') < j" by simp
      from ext show False
      proof
        assume "calls s1 = calls s3"
        with c3 j(2) gt show False by simp
      next
        assume "\<exists>q. calls s1 = calls s3 @ [(Prompt_exec, q)]"
        then obtain q where q: "calls s1 = calls s3 @ [(Prompt_exec, q)]" ..
        with c3 j(2) gt have "j = Suc (length (calls s'))" by simp
        with q c3 have "calls s1 ! j = (Prompt_exec, q)" by (simp add: nth_append)
        with j(3) show False by simp
      qed
    qed
  qed
  from le lt at r uniq show ?thesis by blast
qed


lemma split_pushes:
  assumes step: "process_node g loads item s = (s1, Inr pushed)"
  shows "(\<forall>i fp reply m sub_tasks.
           length (calls s) \<le> i \<and> i < length (calls s1) \<and> calls s1 ! i = (P_split, fp) \<and>
           create_completion g i fp = Some reply \<and> search_brackets reply = Some m \<and>
           loads m = Some sub_tasks
           \<longrightarrow> pushed = \<lparr>n_depth = n_depth item, n_task = n_task item, n_type = RESUME\<rparr> #
                 map (\<lambda>st. \<lparr>n_depth = n_depth item + 1, n_task = st, n_type = SUB\<rparr>) (rev sub_tasks)) \<and>
         (pushed \<noteq> [] \<longrightarrow>
           (\<exists>i fp reply m sub_tasks.
              length (calls s) \<le> i \<and> i < length (calls s1) \<and> calls s1 ! i = (P_split, fp) \<and>
              create_completion g i fp = Some reply \<and> search_brackets reply = Some m \<and>
              loads m = Some sub_tasks))"
    (is "?one \<and> ?two")
  using step
proof (cases rule: process_node_cases)
  case Resume
  then have c: "calls s1 = calls s" and p: "pushed = []" by (simp_all add: calls_emit)
  have "?one" using c by auto
  moreover have "?two" using p by simp
  ultimately show ?thesis by (rule conjI)
next
  case (Split val_w val_h sa p res_split s3 pushed' c)
  have ext: "calls s1 = calls s3 \<or> (\<exists>q. calls s1 = calls s3 @ [(Prompt_exec, q)])"
    using Split(5) by (simp add: calls_emit)
  note u = split_call_unique [OF Split(2) Split(3) ext]
  have pp: "pushed' = pushed" using Split(6) by simp
  note st = Split(4) [unfolded pp]
  have "?one"
    proof (intro allI impI)
      fix i fp reply m sub_tasks
      assume a: "length (calls s) \<le> i \<and> i < length (calls s1) \<and> calls s1 ! i = (P_split, fp) \<and>
           create_completion g i fp = Some reply \<and> search_brackets reply = Some m \<and>
           loads m = Some sub_tasks"
      with u have "i = length (calls sa)" by blast
      with u a have "res_split = Some reply" by auto
      with split_try_parsed(1) [of reply m loads sub_tasks "n_depth item" "n_task item" pushed] a st
      show "pushed = \<lparr>n_depth = n_depth item, n_task = n_task item, n_type = RESUME\<rparr> #
                 map (\<lambda>st. \<lparr>n_depth = n_depth item + 1, n_task = st, n_type = SUB\<rparr>) (rev sub_tasks)"
        by simp
    qed
  moreover have "?two"
    proof
      assume "pushed \<noteq> []"
      from split_try_pushed_parsed [OF st this] obtain reply m sub_tasks where
        "res_split = Some reply" "search_brackets reply = Some m" "loads m = Some sub_tasks"
        by blast
      with u show "\<exists>i fp reply m sub_tasks.
              length (calls s) \<le> i \<and> i < length (calls s1) \<and> calls s1 ! i = (P_split, fp) \<and>
              create_completion g i fp = Some reply \<and> search_brackets reply = Some m \<and>
              loads m = Some sub_tasks"
        by (metis (no_types, lifting))
    qed
  ultimately show ?thesis by (rule conjI)
next
  case (NoMatch val_w val_h sa p res_split)
  have ext: "calls s1 = calls s1 \<or> (\<exists>q. calls s1 = calls s1 @ [(Prompt_exec, q)])" by simp
  note u = split_call_unique [OF NoMatch(2) NoMatch(3) ext]
  have p: "pushed = []" using NoMatch(5) by simp
  have "?one"
    proof (intro allI impI)
      fix i fp reply m sub_tasks
      assume a: "length (calls s) \<le> i \<and> i < length (calls s1) \<and> calls s1 ! i = (P_split, fp) \<and>
           create_completion g i fp = Some reply \<and> search_brackets reply = Some m \<and>
           loads m = Some sub_tasks"
      with u have "i = length (calls sa)" by blast
      with u a have "res_split = Some reply" by auto
      with split_try_parsed(2) [of reply m loads sub_tasks "n_depth item" "n_task item" "[]" "Inr None"]
        a NoMatch(4)
      show "pushed = \<lparr>n_depth = n_depth item, n_task = n_task item, n_type = RESUME\<rparr> #
                 map (\<lambda>st. \<lparr>n_depth = n_depth item + 1, n_task = st, n_type = SUB\<rparr>) (rev sub_tasks)"
        by simp
    qed
  moreover have "?two" using p by simp
  ultimately show ?thesis by (rule conjI)
next
  case (Caught val_w val_h sa p res_split s3 pushed' e x)
  have ext: "calls s1 = calls s3 \<or> (\<exists>q. calls s1 = calls s3 @ [(Prompt_exec, q)])"
    using execute_leaf_result [OF Caught(5)] by blast
  note u = split_call_unique [OF Caught(2) Caught(3) ext]
  have pp: "pushed' = pushed" using Caught(6) by (auto split: option.splits)
  note st = Caught(4) [unfolded pp]
  have "?one"
    proof (intro allI impI)
      fix i fp reply m sub_tasks
      assume a: "length (calls s) \<le> i \<and> i < length (calls s1) \<and> calls s1 ! i = (P_split, fp) \<and>
           create_completion g i fp = Some reply \<and> search_brackets reply = Some m \<and>
           loads m = Some sub_tasks"
      with u have "i = length (calls sa)" by blast
      with u a have "res_split = Some reply" by auto
      with split_try_parsed(1) [of reply m loads sub_tasks "n_depth item" "n_task item" pushed] a st
      show "pushed = \<lparr>n_depth = n_depth item, n_task = n_task item, n_type = RESUME\<rparr> #
                 map (\<lambda>st. \<lparr>n_depth = n_depth item + 1, n_task = st, n_type = SUB\<rparr>) (rev sub_tasks)"
        by simp
    qed
  moreover have "?two"
    proof
      assume "pushed \<noteq> []"
      from split_try_pushed_parsed [OF st this] obtain reply m sub_tasks where
        "res_split = Some reply" "search_brackets reply = Some m" "loads m = Some sub_tasks"
        by blast
      with u show "\<exists>i fp reply m sub_tasks.
              length (calls s) \<le> i \<and> i < length (calls s1) \<and> calls s1 ! i = (P_split, fp) \<and>
              create_completion g i fp = Some reply \<and> search_brackets reply = Some m \<and>
              loads m = Some sub_tasks"
        by (metis (no_types, lifting))
    qed
  ultimately show ?thesis by (rule conjI)
next
  case (Leaf val_w val_h val_i sa x)
  have p: "pushed = []" using Leaf(5) by (auto split: option.splits)
  from whi_analysis_sites [OF Leaf(2)] obtain new where
    n: "map fst (calls sa) = map fst (calls s) @ new" and ns: "P_split \<notin> set new" by blast
  from execute_leaf_result [OF Leaf(4)] obtain q where
    "calls s1 = calls sa @ [(Prompt_exec, q)]" by blast
  with n have n1: "map fst (calls s1) = map fst (calls s) @ (new @ [Prompt_exec])" by simp
  have "?one"
    proof (intro allI impI)
      fix i fp reply m sub_tasks
      assume a: "length (calls s) \<le> i \<and> i < length (calls s1) \<and> calls s1 ! i = (P_split, fp) \<and>
           create_completion g i fp = Some reply \<and> search_brackets reply = Some m \<and>
           loads m = Some sub_tasks"
      with new_call_site [OF n1, of i] ns have False by auto
      then show "pushed = \<lparr>n_depth = n_depth item, n_task = n_task item, n_type = RESUME\<rparr> #
                 map (\<lambda>st. \<lparr>n_depth = n_depth item + 1, n_task = st, n_type = SUB\<rparr>) (rev sub_tasks)"
        ..
    qed
  moreover have "?two" using p by simp
  ultimately show ?thesis by (rule conjI)
qed


lemma run_after_split:
  "run_stack g loads
       (rest @ \<lparr>n_depth = d, n_task = t, n_type = RESUME\<rparr> #
          map (\<lambda>st. \<lparr>n_depth = d + 1, n_task = st, n_type = SUB\<rparr>) (rev sub_tasks)) s1 =
     (case run_each g loads (map (\<lambda>st. \<lparr>n_depth = d + 1, n_task = st, n_type = SUB\<rparr>) sub_tasks) s1 of
        (s2, Some e) \<Rightarrow> (s2, Some e)
      | (s2, None) \<Rightarrow>
          run_stack g loads rest
            (emit (msg ''card'' (''Sub-tasks completed for: '' @ fmt t) (Some (prefix_of d @ '' Context'')))
               (emit (msg ''status'' (prefix_of d @ '' Context Aggregation...'') None) s2)))"
proof -
  let ?resume = "\<lparr>n_depth = d, n_task = t, n_type = RESUME\<rparr>"
  let ?sub = "\<lambda>st. \<lparr>n_depth = d + 1, n_task = st, n_type = SUB\<rparr>"
  have "run_stack g loads (rest @ ?resume # map ?sub (rev sub_tasks)) s1
          = run_stack g loads ((rest @ [?resume]) @ rev (map ?sub sub_tasks)) s1"
    by (simp add: rev_map)
  also have "\<dots> = (case run_stack g loads (rev (map ?sub sub_tasks)) s1 of
        (s2, Some e) \<Rightarrow> (s2, Some e)
      | (s2, None) \<Rightarrow> run_stack g loads (rest @ [?resume]) s2)"
    by (rule run_stack_append)
  also have "\<dots> = (case run_each g loads (map ?sub sub_tasks) s1 of
        (s2, Some e) \<Rightarrow> (s2, Some e)
      | (s2, None) \<Rightarrow> run_stack g loads (rest @ [?resume]) s2)"
    by (simp only: run_stack_rev)
  also have "\<dots> = (case run_each g loads (map ?sub sub_tasks) s1 of
        (s2, Some e) \<Rightarrow> (s2, Some e)
      | (s2, None) \<Rightarrow>
          run_stack g loads rest
            (emit (msg ''card'' (''Sub-tasks completed for: '' @ fmt t) (Some (prefix_of d @ '' Context'')))
               (emit (msg ''status'' (prefix_of d @ '' Context Aggregation...'') None) s2)))"
    by (simp add: run_stack_append [of g loads rest "[?resume]"] run_stack_resume
             split: prod.split option.split)
  finally show ?thesis .
qed

subsection \<open>The decomposition engine\<close>

text \<open>
  C2. Take an iteration of the loop on a node at depth \<open>k\<close> that ends without an exception.
  If its split request was answered by a text with a bracketed span that \<open>json.loads\<close>
  parses to the list \<open>sub_tasks\<close>, then what the iteration pushed is the RESUME node of the
  node first and then one SUB node at depth \<open>k + 1\<close> for every element of \<open>sub_tasks\<close>, in
  reverse list order. The rest of the loop then processes the sub-tasks in the order of
  \<open>sub_tasks\<close>, each one completely (with everything it pushes in turn) before the next;
  only after the last of them does it yield the two aggregation events of the RESUME node,
  and only then does it go on with what was on the stack before. An iteration pushes in
  no other case.
\<close>

theorem split_order:
  assumes "process_node g loads item s = (s1, Inr pushed)"
  shows "(\<forall>i fp reply m sub_tasks.
            length (calls s) \<le> i \<and> i < length (calls s1) \<and> calls s1 ! i = (P_split, fp) \<and>
            create_completion g i fp = Some reply \<and> search_brackets reply = Some m \<and>
            loads m = Some sub_tasks
            \<longrightarrow> pushed = \<lparr>n_depth = n_depth item, n_task = n_task item, n_type = RESUME\<rparr> #
                  map (\<lambda>st. \<lparr>n_depth = n_depth item + 1, n_task = st, n_type = SUB\<rparr>)
                    (rev sub_tasks) \<and>
                run_stack g loads (rest @ pushed) s1 =
                  (case run_each g loads
                          (map (\<lambda>st. \<lparr>n_depth = n_depth item + 1, n_task = st, n_type = SUB\<rparr>)
                             sub_tasks) s1 of
                     (s2, Some e) \<Rightarrow> (s2, Some e)
                   | (s2, None) \<Rightarrow>
                       run_stack g loads rest
                         (emit (msg ''card'' (''Sub-tasks completed for: '' @ fmt (n_task item))
                                  (Some (prefix_of (n_depth item) @ '' Context'')))
                            (emit (msg ''status''
                                     (prefix_of (n_depth item) @ '' Context Aggregation...'') None)
                               s2)))) \<and>
         (pushed \<noteq> [] \<longrightarrow>
            (\<exists>i fp reply m sub_tasks.
               length (calls s) \<le> i \<and> i < length (calls s1) \<and> calls s1 ! i = (P_split, fp) \<and>
               create_completion g i fp = Some reply \<and> search_brackets reply = Some m \<and>
               loads m = Some sub_tasks))"
proof (intro conjI allI impI)
  fix i fp reply m sub_tasks
  assume a: "length (calls s) \<le> i \<and> i < length (calls s1) \<and> calls s1 ! i = (P_split, fp) \<and>
            create_completion g i fp = Some reply \<and> search_brackets reply = Some m \<and>
            loads m = Some sub_tasks"
  with split_pushes [OF assms]
  show pu: "pushed = \<lparr>n_depth = n_depth item, n_task = n_task item, n_type = RESUME\<rparr> #
                  map (\<lambda>st. \<lparr>n_depth = n_depth item + 1, n_task = st, n_type = SUB\<rparr>)
                    (rev sub_tasks)"
    by blast
  show "run_stack g loads (rest @ pushed) s1 =
          (case run_each g loads
                  (map (\<lambda>st. \<lparr>n_depth = n_depth item + 1, n_task = st, n_type = SUB\<rparr>)
                     sub_tasks) s1 of
             (s2, Some e) \<Rightarrow> (s2, Some e)
           | (s2, None) \<Rightarrow>
               run_stack g loads rest
                 (emit (msg ''card'' (''Sub-tasks completed for: '' @ fmt (n_task item))
                          (Some (prefix_of (n_depth item) @ '' Context'')))
                    (emit (msg ''status''
                             (prefix_of (n_depth item) @ '' Context Aggregation...'') None)
                       s2)))"
    unfolding pu by (rule run_after_split)
next
  assume "pushed \<noteq> []"
  with split_pushes [OF assms]
  show "\<exists>i fp reply m sub_tasks.
               length (calls s) \<le> i \<and> i < length (calls s1) \<and> calls s1 ! i = (P_split, fp) \<and>
               create_completion g i fp = Some reply \<and> search_brackets reply = Some m \<and>
               loads m = Some sub_tasks"
    by blast
qed

theorem split_order_witness:
  "process_node (splitting_model two_subtasks) loads_two_subtasks main_node empty_state =
     (fst (process_node (splitting_model two_subtasks) loads_two_subtasks main_node empty_state),
      Inr split_nodes) \<and>
   (length (calls empty_state) \<le> 4 \<and>
    4 < length (calls (fst (process_node (splitting_model two_subtasks) loads_two_subtasks
                              main_node empty_state))) \<and>
    calls (fst (process_node (splitting_model two_subtasks) loads_two_subtasks main_node
                  empty_state)) ! 4 =
      (P_split, snd (calls (fst (process_node (splitting_model two_subtasks) loads_two_subtasks
                                   main_node empty_state)) ! 4)) \<and>
    create_completion (splitting_model two_subtasks) 4
      (snd (calls (fst (process_node (splitting_model two_subtasks) loads_two_subtasks main_node
                          empty_state)) ! 4)) = Some two_subtasks \<and>
    search_brackets two_subtasks = Some two_subtasks \<and>
    loads_two_subtasks two_subtasks = Some design_and_write) \<and>
   (split_nodes = \<lparr>n_depth = n_depth main_node, n_task = n_task main_node, n_type = RESUME\<rparr> #
      map (\<lambda>st. \<lparr>n_depth = n_depth main_node + 1, n_task = st, n_type = SUB\<rparr>)
        (rev design_and_write) \<and>
    run_stack (splitting_model two_subtasks) loads_two_subtasks ([] @ split_nodes)
        (fst (process_node (splitting_model two_subtasks) loads_two_subtasks main_node empty_state)) =
      (case run_each (splitting_model two_subtasks) loads_two_subtasks
              (map (\<lambda>st. \<lparr>n_depth = n_depth main_node + 1, n_task = st, n_type = SUB\<rparr>)
                 design_and_write)
              (fst (process_node (splitting_model two_subtasks) loads_two_subtasks main_node
                      empty_state)) of
         (s2, Some e) \<Rightarrow> (s2, Some e)
       | (s2, None) \<Rightarrow>
           run_stack (splitting_model two_subtasks) loads_two_subtasks []
             (emit (msg ''card'' (''Sub-tasks completed for: '' @ fmt (n_task main_node))
                      (Some (prefix_of (n_depth main_node) @ '' Context'')))
                (emit (msg ''status''
                         (prefix_of (n_depth main_node) @ '' Context Aggregation...'') None)
                   s2)))) \<and>
   split_nodes \<noteq> [] \<and>
   (\<exists>i fp reply m sub_tasks.
      length (calls empty_state) \<le> i \<and>
      i < length (calls (fst (process_node (splitting_model two_subtasks) loads_two_subtasks
                                main_node empty_state))) \<and>
      calls (fst (process_node (splitting_model two_subtasks) loads_two_subtasks main_node
                    empty_state)) ! i = (P_split, fp) \<and>
      create_completion (splitting_model two_subtasks) i fp = Some reply \<and>
      search_brackets reply = Some m \<and> loads_two_subtasks m = Some sub_tasks)"
proof -
  let ?r = "process_node (splitting_model two_subtasks) loads_two_subtasks main_node empty_state"
  have ev: "(let r = process_node (splitting_model two_subtasks) loads_two_subtasks main_node
                       empty_state
             in snd r = Inr split_nodes \<and> length (calls (fst r)) = 5 \<and>
                fst (calls (fst r) ! 4) = P_split)"
    by code_simp
  have step: "?r = (fst ?r, Inr split_nodes)"
    using ev by (simp add: Let_def prod_eq_iff)
  have a1: "length (calls empty_state) \<le> 4" by (simp add: empty_state_def)
  have a2: "4 < length (calls (fst ?r))" using ev by (simp add: Let_def)
  have a3: "calls (fst ?r) ! 4 = (P_split, snd (calls (fst ?r) ! 4))"
    using ev by (simp add: Let_def prod_eq_iff)
  have a4: "create_completion (splitting_model two_subtasks) 4 (snd (calls (fst ?r) ! 4))
              = Some two_subtasks"
    by (simp add: splitting_model_def scripted_def)
  have a5: "search_brackets two_subtasks = Some two_subtasks" by code_simp
  have a6: "loads_two_subtasks two_subtasks = Some design_and_write"
    by (simp add: loads_two_subtasks_def design_and_write_def)
  have a: "length (calls empty_state) \<le> 4 \<and> 4 < length (calls (fst ?r)) \<and>
      calls (fst ?r) ! 4 = (P_split, snd (calls (fst ?r) ! 4)) \<and>
      create_completion (splitting_model two_subtasks) 4 (snd (calls (fst ?r) ! 4))
        = Some two_subtasks \<and>
      search_brackets two_subtasks = Some two_subtasks \<and>
      loads_two_subtasks two_subtasks = Some design_and_write"
    using a1 a2 a3 a4 a5 a6 by (intro conjI)
  have ne: "split_nodes \<noteq> []" by (simp add: split_nodes_def)
  note so = split_order [OF step, of "[]", THEN conjunct1, rule_format, OF a]
  note ex = split_order [OF step, of "[]", THEN conjunct2, rule_format, OF ne]
  show ?thesis
    by (rule conjI [OF step conjI [OF a conjI [OF so conjI [OF ne ex]]]])
qed

text \<open>
  C3. A MAIN or SUB node at depth \<open>MAX_DEPTH\<close> or deeper is never asked the single-step
  question and never split: the only gateway calls of its iteration are the router
  question, on the complex path the goal and plan extraction, and the leaf execution,
  which it always reaches; nothing is pushed.
\<close>

theorem at_max_depth_leaf:
  assumes "n_type item \<noteq> RESUME" and "MAX_DEPTH \<le> n_depth item"
    and "process_node g loads item s = (s', r)"
  shows "(map fst (calls s') = map fst (calls s) @ [P_router, Prompt_exec] \<or>
          map fst (calls s') = map fst (calls s) @ [P_router, P_what, P_how, Prompt_exec]) \<and>
         msg ''status'' (prefix_of (n_depth item) @ '' Status: CLEAR. Executing...'') None
           \<in> set (events s') \<and>
         (r = Inr [] \<or> r = Inl AttributeError)"
  using assms(3)
proof (cases rule: process_node_cases)
  case Resume
  with assms(1) show ?thesis by simp
next
  case (Split val_w val_h s1 p res_split s3 pushed c)
  from whi_analysis_NO [OF Split(2)] assms(2) show ?thesis by simp
next
  case (NoMatch val_w val_h s1 p res_split)
  from whi_analysis_NO [OF NoMatch(2)] assms(2) show ?thesis by simp
next
  case (Caught val_w val_h s1 p res_split s3 pushed e x)
  from whi_analysis_NO [OF Caught(2)] assms(2) show ?thesis by simp
next
  case (Leaf val_w val_h val_i s1 x)
  have d: "\<not> n_depth item < MAX_DEPTH" using assms(2) by simp
  have a: "map fst (calls s1) = map fst (calls s) @ [P_router] \<or>
           map fst (calls s1) = map fst (calls s) @ [P_router, P_what, P_how]"
    using sites_whi_analysis [of g "n_depth item" "n_task item" s] Leaf(2) d by simp
  from execute_leaf_result [OF Leaf(4)] obtain p where
    c: "calls s' = calls s1 @ [(Prompt_exec, p)]"
    and e: "msg ''status'' (prefix_of (n_depth item) @ '' Status: CLEAR. Executing...'') None
              \<in> set (events s')"
    and x: "x = Some AttributeError \<or> x = None"
    by (auto split: option.splits)
  from a c have "map fst (calls s') = map fst (calls s) @ [P_router, Prompt_exec] \<or>
      map fst (calls s') = map fst (calls s) @ [P_router, P_what, P_how, Prompt_exec]"
    by auto
  moreover have "r = Inr [] \<or> r = Inl AttributeError"
    using x Leaf(5) by auto
  ultimately show ?thesis using e by simp
qed

theorem at_max_depth_leaf_witness:
  "n_type deep_node \<noteq> RESUME \<and> MAX_DEPTH \<le> n_depth deep_node \<and>
   ((map fst (calls (fst (process_node planning_model loads_fails deep_node empty_state))) =
       map fst (calls empty_state) @ [P_router, Prompt_exec] \<or>
     map fst (calls (fst (process_node planning_model loads_fails deep_node empty_state))) =
       map fst (calls empty_state) @ [P_router, P_what, P_how, Prompt_exec]) \<and>
    msg ''status'' (prefix_of (n_depth deep_node) @ '' Status: CLEAR. Executing...'') None
      \<in> set (events (fst (process_node planning_model loads_fails deep_node empty_state))) \<and>
    (snd (process_node planning_model loads_fails deep_node empty_state) = Inr [] \<or>
     snd (process_node planning_model loads_fails deep_node empty_state) = Inl AttributeError)) \<and>
   map fst (calls (fst (process_node planning_model loads_fails deep_node empty_state))) =
     [P_router, P_what, P_how, Prompt_exec]"
proof -
  have h1: "n_type deep_node \<noteq> RESUME" by (simp add: deep_node_def)
  have h2: "MAX_DEPTH \<le> n_depth deep_node" by (simp add: deep_node_def MAX_DEPTH_def)
  have h3: "process_node planning_model loads_fails deep_node empty_state =
      (fst (process_node planning_model loads_fails deep_node empty_state),
       snd (process_node planning_model loads_fails deep_node empty_state))" by simp
  have c: "map fst (calls (fst (process_node planning_model loads_fails deep_node empty_state))) =
     [P_router, P_what, P_how, Prompt_exec]" by code_simp
  show ?thesis
    by (rule conjI [OF h1 conjI [OF h2 conjI [OF at_max_depth_leaf [OF h1 h2 h3] c]]])
qed




subsection \<open>Both modes\<close>

text \<open>
  C7. In both modes the events a run yields form a well-formed stream: at most one \<open>done\<close>
  event, no event after a \<open>done\<close> event, and a target on every \<open>card\<close> event. This holds
  for the runs that end in an exception and for the run on an unknown session as well.
\<close>

theorem event_stream_well_formed:
  "stream_ok (emitted (process_pipeline_MAS g loads sessions prompt session_id settings)) \<and>
   stream_ok (emitted (process_pipeline_MultiAgent g' loads' sessions' original_prompt session_id'))"
proof
  show "stream_ok (emitted (process_pipeline_MAS g loads sessions prompt session_id settings))"
  proof (cases "get_session sessions session_id")
    case None
    then show ?thesis by (simp add: process_pipeline_MAS_def stream_ok_Nil)
  next
    case (Some sess)
    obtain s r where rs: "run_stages g loads sess prompt settings = (s, r)"
      by (metis prod.exhaust)
    have b: "body_ok (events s)"
      using body_ok_run_stages [of g loads sess prompt settings] rs by simp
    show ?thesis
    proof (cases r)
      case (Inl e)
      with Some rs b show ?thesis
        by (simp add: process_pipeline_MAS_def stream_ok_body)
    next
      case (Inr full_resp)
      have "body_ok (events s @ [msg ''status'' ''10.0 Kerberos (Final Gateway)'' None])"
        using b by (simp add: body_ok_append body_ok_Cons body_ok_Nil)
      from stream_ok_done [OF this, of "''Ready''"] Some rs Inr show ?thesis
        by (simp add: process_pipeline_MAS_def Let_def events_emit)
    qed
  qed
next
  show "stream_ok (emitted (process_pipeline_MultiAgent g' loads' sessions' original_prompt session_id'))"
  proof (cases "get_session sessions' session_id'")
    case None
    then show ?thesis by (simp add: process_pipeline_MultiAgent_def stream_ok_Nil)
  next
    case (Some sess)
    define s1 :: dstate where "s1 =
      (let s0 = emit (msg ''status'' ''Initializing WHIS-ReAct Protocol...'' None)
                     \<lparr>events = [], calls = [], global_context = []\<rparr>
       in if history sess \<noteq> []
          then s0\<lparr>global_context := ''Prior Chat History:\<newline>'' @
                    concat (map history_line (slice_from (history sess) (- 6)))\<rparr>
          else s0)"
    have b1: "body_ok (events s1)"
      by (simp add: s1_def Let_def events_emit body_ok_Cons body_ok_Nil)
    obtain s2 r where rs: "run_stack g' loads'
        [\<lparr>n_depth = 1, n_task = Str original_prompt, n_type = MAIN\<rparr>] s1 = (s2, r)"
      by (metis prod.exhaust)
    have b2: "body_ok (events s2)"
      using run_stack_body [of g' loads' "[\<lparr>n_depth = 1, n_task = Str original_prompt, n_type = MAIN\<rparr>]" s1]
        rs b1 by simp
    show ?thesis
    proof (cases r)
      case None
      from stream_ok_done [OF b2, of "''Ready''"] Some rs None show ?thesis
        by (simp add: process_pipeline_MultiAgent_def Let_def events_emit s1_def)
    next
      case (Some e)
      with \<open>get_session sessions' session_id' = Some sess\<close> rs b2 show ?thesis
        by (simp add: process_pipeline_MultiAgent_def Let_def stream_ok_body s1_def)
    qed
  qed
qed

theorem event_stream_well_formed_witness:
  "stream_ok (emitted (process_pipeline_MAS chatty_model loads_fails one_session ''hi'' ''s1''
                         auto_over_audit)) \<and>
   stream_ok (emitted (process_pipeline_MultiAgent answering_model loads_fails one_session
                         ''What is 2+2?'' ''s1'')) \<and>
   (let evs = map ev_type (emitted (process_pipeline_MAS chatty_model loads_fails one_session ''hi''
                                      ''s1'' auto_over_audit))
    in ''card'' \<in> set evs \<and> last evs = ''done'') \<and>
   (let evs = map ev_type (emitted (process_pipeline_MultiAgent answering_model loads_fails
                                      one_session ''What is 2+2?'' ''s1''))
    in ''card'' \<in> set evs \<and> last evs = ''done'')"
proof -
  have a: "(let evs = map ev_type (emitted (process_pipeline_MAS chatty_model loads_fails one_session
                                              ''hi'' ''s1'' auto_over_audit))
            in ''card'' \<in> set evs \<and> last evs = ''done'')"
    by code_simp
  have b: "(let evs = map ev_type (emitted (process_pipeline_MultiAgent answering_model loads_fails
                                      one_session ''What is 2+2?'' ''s1''))
            in ''card'' \<in> set evs \<and> last evs = ''done'')"
    by code_simp
  from event_stream_well_formed [of chatty_model loads_fails one_session "''hi''" "''s1''"
      auto_over_audit answering_model loads_fails one_session "''What is 2+2?''" "''s1''"] a b
  show ?thesis by blast
qed

text \<open>
  C9. A run on an existing session, in either mode, leaves every other session of the store
  as it was, and the session itself with the same \<open>id\<close>, \<open>title\<close> and \<open>created\<close> and with
  a history that is the old one followed by the appended turns.
\<close>

theorem session_store_frame:
  assumes "get_session sessions session_id = Some sess"
    and "r = process_pipeline_MAS g loads sessions prompt session_id settings \<or>
         r = process_pipeline_MultiAgent g' loads' sessions prompt session_id"
  shows "\<exists>sess'. store r session_id = Some sess' \<and>
           sid sess' = sid sess \<and> title sess' = title sess \<and> created sess' = created sess \<and>
           (\<exists>turns. history sess' = history sess @ turns) \<and>
           (\<forall>k. k \<noteq> session_id \<longrightarrow> store r k = sessions k)"
  using assms
  by (auto simp: process_pipeline_MAS_def process_pipeline_MultiAgent_def Let_def get_session_def
           split: prod.splits sum.splits option.splits)


theorem session_store_frame_witness:
  "get_session one_session ''s1'' = Some first_session \<and>
   (\<exists>sess'. store (process_pipeline_MAS chatty_model loads_fails one_session ''hi'' ''s1''
                     auto_over_audit) ''s1'' = Some sess' \<and>
       sid sess' = sid first_session \<and> title sess' = title first_session \<and>
       created sess' = created first_session \<and>
       (\<exists>turns. history sess' = history first_session @ turns) \<and>
       (\<forall>k. k \<noteq> ''s1'' \<longrightarrow>
          store (process_pipeline_MAS chatty_model loads_fails one_session ''hi'' ''s1''
                   auto_over_audit) k = one_session k)) \<and>
   (\<exists>sess'. store (process_pipeline_MultiAgent answering_model loads_fails one_session ''hi'' ''s1'')
               ''s1'' = Some sess' \<and>
       sid sess' = sid first_session \<and> title sess' = title first_session \<and>
       created sess' = created first_session \<and>
       (\<exists>turns. history sess' = history first_session @ turns) \<and>
       (\<forall>k. k \<noteq> ''s1'' \<longrightarrow>
          store (process_pipeline_MultiAgent answering_model loads_fails one_session ''hi'' ''s1'') k
            = one_session k)) \<and>
   map_option history
     (store (process_pipeline_MAS chatty_model loads_fails one_session ''hi'' ''s1'' auto_over_audit)
        ''s1'') =
     Some [\<lparr>role = ''user'', content = ''hi''\<rparr>, \<lparr>role = ''assistant'', content = ''ok''\<rparr>]"
proof -
  have h: "get_session one_session ''s1'' = Some first_session"
    by (simp add: get_session_def one_session_def first_session_def)
  have a: "process_pipeline_MAS chatty_model loads_fails one_session ''hi'' ''s1'' auto_over_audit
             = process_pipeline_MAS chatty_model loads_fails one_session ''hi'' ''s1'' auto_over_audit \<or>
           process_pipeline_MAS chatty_model loads_fails one_session ''hi'' ''s1'' auto_over_audit
             = process_pipeline_MultiAgent answering_model loads_fails one_session ''hi'' ''s1''"
    by simp
  have b: "process_pipeline_MultiAgent answering_model loads_fails one_session ''hi'' ''s1''
             = process_pipeline_MAS chatty_model loads_fails one_session ''hi'' ''s1'' auto_over_audit \<or>
           process_pipeline_MultiAgent answering_model loads_fails one_session ''hi'' ''s1''
             = process_pipeline_MultiAgent answering_model loads_fails one_session ''hi'' ''s1''"
    by simp
  have e: "map_option history
     (store (process_pipeline_MAS chatty_model loads_fails one_session ''hi'' ''s1'' auto_over_audit)
        ''s1'') =
     Some [\<lparr>role = ''user'', content = ''hi''\<rparr>, \<lparr>role = ''assistant'', content = ''ok''\<rparr>]"
    by code_simp
  show ?thesis
    by (rule conjI [OF h conjI [OF session_store_frame [OF h a]
          conjI [OF session_store_frame [OF h b] e]]])
qed

subsection \<open>Where the code departs from the specification\<close>

text \<open>
  C1. With no model loaded, a run does not always go on to its \<open>done\<close> event. In the
  pipeline the two plan calls of the debate stage subscript the absent result, so a run
  with the debate flag ends in a \<open>TypeError\<close>; in the decomposition engine the leaf
  execution calls the absent model handle, so every run ends in an \<open>AttributeError\<close>.
  Neither run yields a \<open>done\<close> event.
\<close>

theorem no_model_run_raises:
  "(let r = process_pipeline_MAS no_model loads_fails one_session ''hi'' ''s1'' debate_only
    in raised r = Some TypeError \<and> ''done'' \<notin> set (map ev_type (emitted r))) \<and>
   (let r = process_pipeline_MultiAgent no_model loads_fails one_session ''hi'' ''s1''
    in raised r = Some AttributeError \<and> ''done'' \<notin> set (map ev_type (emitted r)))"
  by code_simp

text \<open>
  C4. A split reply without a bracketed span, such as \<^verbatim>\<open>not json\<close> or an array cut off
  before its closing bracket, does not raise, but the node is not executed as a leaf
  either: after the status event of the split the run yields nothing more for the node
  (no execution status, no token) and goes on to \<open>done\<close>. This holds whatever
  \<open>json.loads\<close> does, since it is never called.
\<close>

theorem malformed_split_drops_node:
  "(let r = process_pipeline_MultiAgent (splitting_model ''not json'') loads one_session
              ''Plan and build a REST API'' ''s1''
    in raised r = None \<and>
       map ev_content (emitted r) =
         [''Initializing WHIS-ReAct Protocol...'', ''[>>] D1 WHI Analysis...'', ''W: Build it'',
          ''H: Do a then b'', ''I: NO'', ''[>>] D1 Status: COMPLEX. Splitting...'', ''Ready'']) \<and>
   (let r = process_pipeline_MultiAgent (splitting_model truncated_array) loads one_session
              ''Plan and build a REST API'' ''s1''
    in raised r = None \<and>
       map ev_content (emitted r) =
         [''Initializing WHIS-ReAct Protocol...'', ''[>>] D1 WHI Analysis...'', ''W: Build it'',
          ''H: Do a then b'', ''I: NO'', ''[>>] D1 Status: COMPLEX. Splitting...'', ''Ready''])"
  by code_simp

text \<open>
  C6. A decomposition run that streams the answer \<open>4\<close> to \<open>What is 2+2?\<close> appends the
  user turn alone to the session history: the assistant's response is not stored.
\<close>

theorem decomposition_stores_prompt_only:
  "(let r = process_pipeline_MultiAgent answering_model loads_fails one_session ''What is 2+2?'' ''s1''
    in raised r = None \<and>
       map ev_content (filter (\<lambda>e. ev_type e = ''token'') (emitted r)) = [''4''] \<and>
       map_option history (store r ''s1'') = Some [\<lparr>role = ''user'', content = ''What is 2+2?''\<rparr>])"
  by code_simp






end
